(* ===== verification/Prelude.thy ===== *)
theory Prelude
  imports Complex_Main "HOL-Library.Word" "HOL-Library.Log_Nat"
begin

text \<open>
  Shared vocabulary of the development.

  \<^item> \<open>jsstring\<close>: a JavaScript string, that is a sequence of UTF-16 code units. \<open>js\<close> embeds an
    ASCII literal.
  \<^item> \<open>'e + 'a\<close>: the outcome of code that may throw, with \<open>Inl\<close> for the thrown value; \<open>bindE\<close>
    sequences such code and \<open>mapE\<close> runs it over a list, stopping at the first throw.
  \<^item> \<open>jm_get\<close>, \<open>jm_set\<close>, \<open>jm_delete\<close>: the operations of a JavaScript \<open>Map\<close> as the code uses
    them. A \<open>Map\<close> iterates in insertion order, replacing the value of a present key keeps its
    place, and a deleted and re-added key moves to the end; an association list with distinct keys
    is exactly that.
  \<^item> \<open>digits_of\<close> and \<open>digits_value\<close>: decimal notation of natural numbers, as number-to-string
    conversion and \<open>parseInt\<close> use it.
\<close>

subsection \<open>Collections of rewrite rules\<close>

named_theorems err_simps \<open>sequencing of code that may throw\<close>
named_theorems jm_simps \<open>insertion-ordered maps\<close>

subsection \<open>Code that may throw\<close>

definition bindE :: "'e + 'a \<Rightarrow> ('a \<Rightarrow> 'e + 'b) \<Rightarrow> 'e + 'b" where
  "bindE m f = (case m of Inl e \<Rightarrow> Inl e | Inr a \<Rightarrow> f a)"

lemma bindE_Inl [simp, err_simps]: "bindE (Inl e) f = Inl e"
  by (simp add: bindE_def)

lemma bindE_Inr [simp, err_simps]: "bindE (Inr a) f = f a"
  by (simp add: bindE_def)

lemma bindE_eq_Inr [err_simps]: "bindE m f = Inr b \<longleftrightarrow> (\<exists>a. m = Inr a \<and> f a = Inr b)"
  by (cases m) auto

lemma bindE_eq_Inl [err_simps]:
  "bindE m f = Inl e \<longleftrightarrow> m = Inl e \<or> (\<exists>a. m = Inr a \<and> f a = Inl e)"
  by (cases m) auto

lemma bindE_cong [fundef_cong]:
  "m = m' \<Longrightarrow> (\<And>a. m' = Inr a \<Longrightarrow> f a = f' a) \<Longrightarrow> bindE m f = bindE m' f'"
  by (cases m') auto

subsection \<open>JavaScript strings\<close>

type_synonym jschar = "16 word"
type_synonym jsstring = "jschar list"

definition js :: "string \<Rightarrow> jsstring" where
  "js s = map of_char s"

lemma js_simps [simp]: "js [] = []" "js (c # s) = of_char c # js s"
  by (simp_all add: js_def)

lemma js_append: "js (s @ t) = js s @ js t"
  by (simp add: js_def)

lemma of_char_jschar_inject [simp]: "(of_char c :: jschar) = of_char d \<longleftrightarrow> c = d"
proof
  assume eq: "(of_char c :: jschar) = of_char d"
  have unat_char: "unat (of_char x :: jschar) = of_char x" for x
  proof -
    have "(of_char x :: nat) < 256" by simp
    then have "(of_char x :: nat) mod 65536 = of_char x" by (intro mod_less) linarith
    then have "unat (word_of_nat (of_char x) :: jschar) = of_char x"
      by (simp add: unat_of_nat)
    then show ?thesis by (simp add: of_nat_of_char)
  qed
  from eq have "unat (of_char c :: jschar) = unat (of_char d :: jschar)" by simp
  then have "(of_char c :: nat) = of_char d" by (simp only: unat_char)
  then show "c = d" by simp
qed simp

lemma js_inject [simp]: "js s = js t \<longleftrightarrow> s = t"
proof (induction s arbitrary: t)
  case Nil
  then show ?case by (cases t) auto
next
  case (Cons c s)
  then show ?case by (cases t) auto
qed

lemma length_js [simp]: "length (js s) = length s"
  by (simp add: js_def)

text \<open>The relational operators of JavaScript compare two strings by code units.\<close>

fun lex_compare :: "'a::linorder list \<Rightarrow> 'a list \<Rightarrow> int" where
  "lex_compare [] [] = 0"
| "lex_compare [] (y # ys) = -1"
| "lex_compare (x # xs) [] = 1"
| "lex_compare (x # xs) (y # ys) =
     (if x < y then -1 else if y < x then 1 else lex_compare xs ys)"

lemma lex_compare_refl [simp]: "lex_compare xs xs = 0"
  by (induction xs) auto

lemma lex_compare_eq_0 [simp]: "lex_compare xs ys = 0 \<longleftrightarrow> xs = ys"
  by (induction xs ys rule: lex_compare.induct) auto

lemma lex_compare_swap: "lex_compare ys xs = - lex_compare xs ys"
  by (induction xs ys rule: lex_compare.induct) auto

lemma lex_compare_values: "lex_compare xs ys \<in> {-1, 0, 1}"
  by (induction xs ys rule: lex_compare.induct) auto

lemma lex_compare_trans:
  "lex_compare xs ys \<le> 0 \<Longrightarrow> lex_compare ys zs \<le> 0 \<Longrightarrow> lex_compare xs zs \<le> 0"
proof (induction xs ys arbitrary: zs rule: lex_compare.induct)
  case (1 zs)
  then show ?case by simp
next
  case (2 y ys zs)
  then show ?case by (cases zs) auto
next
  case (3 x xs zs)
  then show ?case by simp
next
  case (4 x xs y ys zs)
  show ?case
  proof (cases zs)
    case Nil
    with "4.prems" show ?thesis by simp
  next
    case (Cons z zs')
    with "4.prems" have xy: "x \<le> y" and yz: "y \<le> z"
      by (auto split: if_splits)
    show ?thesis
    proof (cases "x < y \<or> y < z")
      case True
      with xy yz have "x < z" by auto
      with Cons show ?thesis by simp
    next
      case False
      with xy yz have "x = y" and "y = z" by auto
      with "4.prems" Cons "4.IH" [of zs'] show ?thesis by simp
    qed
  qed
qed

definition js_less :: "jsstring \<Rightarrow> jsstring \<Rightarrow> bool" where
  "js_less s t \<longleftrightarrow> lex_compare s t < 0"

lemma js_less_irrefl [simp]: "\<not> js_less s s"
  by (simp add: js_less_def)

lemma js_less_trans: "js_less s t \<Longrightarrow> js_less t u \<Longrightarrow> js_less s u"
proof -
  assume st: "js_less s t" and tu: "js_less t u"
  then have "lex_compare s t \<le> 0" "lex_compare t u \<le> 0" by (auto simp: js_less_def)
  then have le: "lex_compare s u \<le> 0" by (rule lex_compare_trans)
  have "s \<noteq> u"
  proof
    assume "s = u"
    with tu have "lex_compare s t > 0" by (simp add: js_less_def lex_compare_swap [of t])
    with st show False by (simp add: js_less_def)
  qed
  with le show ?thesis by (auto simp: js_less_def order_le_less)
qed

lemma js_less_total: "s \<noteq> t \<Longrightarrow> js_less s t \<or> js_less t s"
  using lex_compare_swap [of s t] lex_compare_eq_0 [of s t]
  by (cases "lex_compare s t" "0 :: int" rule: linorder_cases) (auto simp: js_less_def)

subsection \<open>Insertion-ordered maps\<close>

type_synonym ('k, 'v) jsmap = "('k \<times> 'v) list"

abbreviation jm_get :: "('k, 'v) jsmap \<Rightarrow> 'k \<Rightarrow> 'v option" where
  "jm_get m k \<equiv> map_of m k"

fun jm_set :: "'k \<Rightarrow> 'v \<Rightarrow> ('k, 'v) jsmap \<Rightarrow> ('k, 'v) jsmap" where
  "jm_set k v [] = [(k, v)]"
| "jm_set k v ((k', v') # m) = (if k = k' then (k, v) # m else (k', v') # jm_set k v m)"

definition jm_delete :: "'k \<Rightarrow> ('k, 'v) jsmap \<Rightarrow> ('k, 'v) jsmap" where
  "jm_delete k m = filter (\<lambda>(k', _). k' \<noteq> k) m"

definition jm_wf :: "('k, 'v) jsmap \<Rightarrow> bool" where
  "jm_wf m \<longleftrightarrow> distinct (map fst m)"

lemma jm_delete_simps [simp]:
  "jm_delete k [] = []"
  "jm_delete k ((k', v) # m) = (if k' = k then jm_delete k m else (k', v) # jm_delete k m)"
  by (simp_all add: jm_delete_def)

lemma jm_get_set [jm_simps]: "jm_get (jm_set k v m) k' = (if k' = k then Some v else jm_get m k')"
  by (induction k v m rule: jm_set.induct) auto

lemma jm_get_delete [jm_simps]: "jm_get (jm_delete k m) k' = (if k' = k then None else jm_get m k')"
  by (induction m) auto

lemma set_keys_jm_set [jm_simps]: "fst ` set (jm_set k v m) = insert k (fst ` set m)"
  by (induction k v m rule: jm_set.induct) auto

lemma set_keys_jm_delete [jm_simps]: "fst ` set (jm_delete k m) = fst ` set m - {k}"
  by (force simp: jm_delete_def)

lemma jm_wf_Nil [simp]: "jm_wf []"
  by (simp add: jm_wf_def)

lemma jm_wf_Cons [simp]: "jm_wf ((k, v) # m) \<longleftrightarrow> k \<notin> fst ` set m \<and> jm_wf m"
  by (simp add: jm_wf_def)

lemma jm_wf_set [simp, intro]: "jm_wf m \<Longrightarrow> jm_wf (jm_set k v m)"
  by (induction k v m rule: jm_set.induct) (auto simp: set_keys_jm_set)

lemma jm_wf_delete [simp, intro]: "jm_wf m \<Longrightarrow> jm_wf (jm_delete k m)"
  by (induction m) (auto simp: set_keys_jm_delete)

lemma jm_delete_absent: "k \<notin> fst ` set m \<Longrightarrow> jm_delete k m = m"
  by (induction m) auto

lemma jm_set_absent: "k \<notin> fst ` set m \<Longrightarrow> jm_set k v m = m @ [(k, v)]"
  by (induction k v m rule: jm_set.induct) auto

lemma length_jm_set_present [jm_simps]: "k \<in> fst ` set m \<Longrightarrow> length (jm_set k v m) = length m"
  by (induction k v m rule: jm_set.induct) auto

lemma length_jm_set_absent [jm_simps]: "k \<notin> fst ` set m \<Longrightarrow> length (jm_set k v m) = Suc (length m)"
  by (induction k v m rule: jm_set.induct) auto

lemma length_jm_delete_present:
  "jm_wf m \<Longrightarrow> k \<in> fst ` set m \<Longrightarrow> Suc (length (jm_delete k m)) = length m"
  by (induction m) (force simp: jm_delete_absent)+

lemma jm_get_in_set: "jm_wf m \<Longrightarrow> jm_get m k = Some v \<longleftrightarrow> (k, v) \<in> set m"
  by (simp add: jm_wf_def)

lemma jm_get_None: "jm_get m k = None \<longleftrightarrow> k \<notin> fst ` set m"
  by (simp add: map_of_eq_None_iff)

lemma set_jm_set_absent: "k \<notin> fst ` set m \<Longrightarrow> set (jm_set k v m) = insert (k, v) (set m)"
  by (induction k v m rule: jm_set.induct) auto

lemma set_jm_delete: "set (jm_delete k m) = {p \<in> set m. fst p \<noteq> k}"
  by (auto simp: jm_delete_def)

subsection \<open>Decimal notation\<close>

fun digits_of :: "nat \<Rightarrow> nat list" where
  "digits_of n = (if n < 10 then [n] else digits_of (n div 10) @ [n mod 10])"

declare digits_of.simps [simp del]

definition digits_value :: "nat list \<Rightarrow> nat" where
  "digits_value ds = foldl (\<lambda>acc d. 10 * acc + d) 0 ds"

lemma digits_value_snoc: "digits_value (ds @ [d]) = 10 * digits_value ds + d"
  by (simp add: digits_value_def)

lemma digits_value_of: "digits_value (digits_of n) = n"
proof (induction n rule: digits_of.induct)
  case (1 n)
  then show ?case
    by (subst digits_of.simps) (auto simp: digits_value_snoc digits_value_def)
qed

lemma digits_of_small: "d \<in> set (digits_of n) \<Longrightarrow> d < 10"
proof (induction n rule: digits_of.induct)
  case (1 n)
  then show ?case
    by (subst (asm) digits_of.simps) (auto split: if_splits)
qed

lemma digits_of_not_Nil [simp]: "digits_of n \<noteq> []"
  by (subst digits_of.simps) auto

definition digit_char :: "nat \<Rightarrow> jschar" where
  "digit_char d = word_of_nat (48 + d)"

definition char_digit :: "jschar \<Rightarrow> nat option" where
  "char_digit c = (if 48 \<le> unat c \<and> unat c \<le> 57 then Some (unat c - 48) else None)"

lemma char_digit_digit [simp]: "d < 10 \<Longrightarrow> char_digit (digit_char d) = Some d"
proof -
  assume "d < 10"
  then have "unat (digit_char d) = 48 + d"
    unfolding digit_char_def unat_of_nat by simp
  with \<open>d < 10\<close> show ?thesis by (simp add: char_digit_def)
qed

definition show_nat :: "nat \<Rightarrow> jsstring" where
  "show_nat n = map digit_char (digits_of n)"

definition show_int :: "int \<Rightarrow> jsstring" where
  "show_int i = (if i < 0 then js ''-'' @ show_nat (nat (- i)) else show_nat (nat i))"

text \<open>The longest prefix of decimal digits, and what follows it.\<close>

fun span_digits :: "jsstring \<Rightarrow> nat list \<times> jsstring" where
  "span_digits [] = ([], [])"
| "span_digits (c # s) =
     (case char_digit c of
        None \<Rightarrow> ([], c # s)
      | Some d \<Rightarrow> (let (ds, r) = span_digits s in (d # ds, r)))"

lemma span_digits_append:
  assumes "\<forall>d\<in>set ds. d < 10" and "r = [] \<or> char_digit (hd r) = None"
  shows "span_digits (map digit_char ds @ r) = (ds, r)"
  using assms
proof (induction ds)
  case Nil
  then show ?case by (cases r) auto
next
  case (Cons d ds)
  then show ?case by simp
qed

lemma span_digits_show_nat:
  "r = [] \<or> char_digit (hd r) = None \<Longrightarrow> span_digits (show_nat n @ r) = (digits_of n, r)"
  unfolding show_nat_def by (rule span_digits_append) (auto dest: digits_of_small)

lemma show_nat_not_Nil [simp]: "show_nat n \<noteq> []"
  by (simp add: show_nat_def)

lemma show_nat_digits: "c \<in> set (show_nat n) \<Longrightarrow> char_digit c \<noteq> None"
  by (auto simp: show_nat_def dest: digits_of_small)

lemma show_nat_inject [simp]: "show_nat m = show_nat n \<longleftrightarrow> m = n"
proof
  assume "show_nat m = show_nat n"
  then have "span_digits (show_nat m @ []) = span_digits (show_nat n @ [])" by simp
  then have "digits_of m = digits_of n"
    using span_digits_show_nat [of "[]" m] span_digits_show_nat [of "[]" n] by simp
  then have "digits_value (digits_of m) = digits_value (digits_of n)" by simp
  then show "m = n" by (simp only: digits_value_of)
qed simp

end
