(* ===== verification/JsNumber.thy ===== *)
theory JsNumber
  imports Prelude
begin

text \<open>
  The numbers of JavaScript as far as the modelled code depends on them. A \<open>Number\<close> is an IEEE
  double: not-a-number, an infinity, or a finite dyadic rational. A finite double is represented by
  its exact rational value (the sign of zero is never observed by the modelled code), and
  \<open>round_double\<close> is the rounding every conversion into \<open>Number\<close> performs: to nearest, ties to even,
  53 significant bits, subnormals below \<open>2 ^ -1022\<close>, overflow to an infinity.
\<close>

datatype xnum = NegInf | Fin rat | PosInf

datatype jsnum = NaN | Num xnum

instantiation xnum :: linorder
begin

fun less_eq_xnum :: "xnum \<Rightarrow> xnum \<Rightarrow> bool" where
  "less_eq_xnum NegInf _ = True"
| "less_eq_xnum (Fin _) NegInf = False"
| "less_eq_xnum (Fin x) (Fin y) = (x \<le> y)"
| "less_eq_xnum (Fin _) PosInf = True"
| "less_eq_xnum PosInf PosInf = True"
| "less_eq_xnum PosInf _ = False"

definition less_xnum :: "xnum \<Rightarrow> xnum \<Rightarrow> bool" where
  "less_xnum x y \<longleftrightarrow> x \<le> y \<and> \<not> y \<le> (x :: xnum)"

instance
proof
  fix x y z :: xnum
  show "x < y \<longleftrightarrow> x \<le> y \<and> \<not> y \<le> x" by (rule less_xnum_def)
  show "x \<le> x" by (cases x) auto
  show "x \<le> y \<Longrightarrow> y \<le> z \<Longrightarrow> x \<le> z" by (cases x; cases y; cases z) auto
  show "x \<le> y \<Longrightarrow> y \<le> x \<Longrightarrow> x = y" by (cases x; cases y) auto
  show "x \<le> y \<or> y \<le> x" by (cases x; cases y) auto
qed

end

lemma less_xnum_Fin [simp]: "Fin x < Fin y \<longleftrightarrow> x < y"
  by (auto simp: less_xnum_def)

lemma less_xnum_Inf [simp]:
  "NegInf < Fin x" "Fin x < PosInf" "NegInf < PosInf"
  "\<not> x' < NegInf" "\<not> PosInf < x'" "\<not> Fin x < NegInf" "\<not> PosInf < Fin x"
  by (cases x'; simp add: less_xnum_def)+

subsection \<open>Rounding\<close>

text \<open>Division of \<open>n\<close> by a positive \<open>d\<close>, rounded to nearest with ties to even.\<close>

definition round_half_even :: "int \<Rightarrow> int \<Rightarrow> int" where
  "round_half_even n d =
     (let q = n div d; r = n mod d in
      if 2 * r < d then q else if d < 2 * r then q + 1 else if even q then q else q + 1)"

text \<open>The exponent of the leading bit of a positive rational \<open>n / d\<close>.\<close>

definition floor_log2 :: "int \<Rightarrow> int \<Rightarrow> int" where
  "floor_log2 n d =
     (let k = int (nat (bitlen n)) - int (nat (bitlen d)) in
      if (if 0 \<le> k then d * 2 ^ nat k \<le> n else d \<le> n * 2 ^ nat (- k)) then k else k - 1)"

text \<open>The magnitude \<open>n / d\<close> (both positive) rounded to a multiple of the unit in the last place.\<close>

definition round_magnitude :: "int \<Rightarrow> int \<Rightarrow> rat" where
  "round_magnitude n d =
     (let e = max (floor_log2 n d - 52) (- 1074) in
      if 0 \<le> e then of_int (round_half_even n (d * 2 ^ nat e) * 2 ^ nat e)
      else of_int (round_half_even (n * 2 ^ nat (- e)) d) / of_int (2 ^ nat (- e)))"

definition overflow_bound :: rat where
  "overflow_bound = of_int (2 ^ 1024)"

definition round_double :: "rat \<Rightarrow> xnum" where
  "round_double x =
     (if x = 0 then Fin 0
      else let (n, d) = quotient_of \<bar>x\<bar>; m = round_magnitude n d in
        if overflow_bound \<le> m then (if 0 < x then PosInf else NegInf)
        else Fin (if 0 < x then m else - m))"

text \<open>\<open>Number.isSafeInteger\<close> on a finite number, and \<open>Number.MAX_SAFE_INTEGER\<close>.\<close>

definition max_safe :: int where
  "max_safe = 2 ^ 53 - 1"

definition is_safe_int :: "rat \<Rightarrow> bool" where
  "is_safe_int x \<longleftrightarrow> x = of_int \<lfloor>x\<rfloor> \<and> \<bar>\<lfloor>x\<rfloor>\<bar> \<le> max_safe"

text \<open>
  Conversion of a Number to text. Safe integers print in decimal; \<open>ns\<close> stands for the shortest
  round-trip notation of all other numbers.
\<close>

definition num_to_string :: "(xnum \<Rightarrow> jsstring) \<Rightarrow> xnum \<Rightarrow> jsstring" where
  "num_to_string ns x =
     (case x of
        Fin q \<Rightarrow> if is_safe_int q then show_int \<lfloor>q\<rfloor> else ns x
      | _ \<Rightarrow> ns x)"

text \<open>The conversion \<open>Number(b)\<close> of a BigInt.\<close>

definition number_of_bigint :: "int \<Rightarrow> xnum" where
  "number_of_bigint b = round_double (of_int b)"

subsection \<open>Integers up to \<open>2 ^ 53\<close> are exact\<close>

lemma round_half_even_1 [simp]: "round_half_even n 1 = n"
  by (simp add: round_half_even_def)

lemma round_half_even_mult: "0 < d \<Longrightarrow> round_half_even (n * d) d = n"
  by (simp add: round_half_even_def)

lemma round_half_even_ge: "0 < d \<Longrightarrow> m * d \<le> n \<Longrightarrow> m \<le> round_half_even n d"
proof -
  assume "0 < d" "m * d \<le> n"
  then have "m \<le> n div d"
    using zdiv_mono1 [of "m * d" n d] by simp
  then show ?thesis by (auto simp: round_half_even_def Let_def)
qed

lemma bitlen_bounds_int: "0 < n \<Longrightarrow> 2 ^ nat (bitlen n - 1) \<le> n \<and> n < 2 ^ nat (bitlen n)"
  by (rule bitlen_bounds)

lemma floor_log2_of_int:
  assumes "0 < n"
  shows "floor_log2 n 1 = bitlen n - 1"
proof -
  have pos: "1 \<le> bitlen n" using bitlen_ge_iff_power [of 1 n] assms by simp
  have b1: "bitlen (1 :: int) = 1" by (simp add: bitlen_alt_def)
  have low: "2 ^ nat (bitlen n - 1) \<le> n" using bitlen_bounds_int [OF assms] by simp
  show ?thesis using pos low by (simp add: floor_log2_def b1 Let_def)
qed

lemma quotient_of_abs_int: "quotient_of \<bar>of_int b\<bar> = (\<bar>b\<bar>, 1)"
  using quotient_of_rat_of_int [of "\<bar>b\<bar>"] by simp

lemma round_magnitude_eq:
  assumes "0 < n" and "e = max (bitlen n - 53) (- 1074)"
  shows "round_magnitude n 1 =
    (if 0 \<le> e then of_int (round_half_even n (2 ^ nat e) * 2 ^ nat e) else of_int n)"
proof -
  have "max (floor_log2 n 1 - 52) (- 1074) = e"
    using assms(2) by (simp add: floor_log2_of_int [OF assms(1)])
  then show ?thesis by (simp add: round_magnitude_def Let_def)
qed

lemma round_magnitude_exact:
  assumes "0 < n" and "n \<le> 2 ^ 53"
  shows "round_magnitude n 1 = of_int n"
proof (cases "n = 2 ^ 53")
  case True
  have "bitlen n \<le> 54" "54 \<le> bitlen n"
    unfolding True by (subst bitlen_le_iff_power bitlen_ge_iff_power; simp)+
  then have "bitlen n = 54" by simp
  then have "round_magnitude n 1 = of_int (round_half_even n 2 * 2)"
    using round_magnitude_eq [OF assms(1), of 1] by simp
  also have "round_half_even n 2 * 2 = n"
    unfolding True by (simp add: round_half_even_def)
  finally show ?thesis .
next
  case False
  with assms(2) have "n < 2 ^ 53" by simp
  then have len: "bitlen n \<le> 53" using bitlen_le_iff_power [of n 53] by simp
  show ?thesis
  proof (cases "bitlen n = 53")
    case True
    then show ?thesis using round_magnitude_eq [OF assms(1), of 0] by simp
  next
    case False
    with len have "max (bitlen n - 53) (- 1074) < 0" by simp
    then show ?thesis using round_magnitude_eq [OF assms(1) refl] by simp
  qed
qed

lemma small_below_overflow: "n \<le> 2 ^ 53 \<Longrightarrow> \<not> overflow_bound \<le> of_int n"
  unfolding overflow_bound_def of_int_le_iff
proof -
  assume "n \<le> 2 ^ 53"
  also have "(2 :: int) ^ 53 < 2 ^ 1024" by (rule power_strict_increasing) auto
  finally show "\<not> (2 :: int) ^ 1024 \<le> n" by (simp only: not_le)
qed

lemma round_double_int_exact:
  assumes "\<bar>b\<bar> \<le> 2 ^ 53"
  shows "round_double (of_int b) = Fin (of_int b)"
proof (cases "b = 0")
  case False
  then have "0 < \<bar>b\<bar>" by simp
  then have m: "round_magnitude \<bar>b\<bar> 1 = of_int \<bar>b\<bar>"
    using assms by (rule round_magnitude_exact)
  have small: "\<not> overflow_bound \<le> of_int \<bar>b\<bar>"
    using assms by (rule small_below_overflow)
  show ?thesis
  proof (cases "0 < b")
    case True
    with False m small show ?thesis
      unfolding round_double_def quotient_of_abs_int by simp
  next
    case neg: False
    with False have "b < 0" by simp
    with False m small show ?thesis
      unfolding round_double_def quotient_of_abs_int by simp
  qed
qed (simp add: round_double_def)

text \<open>Beyond \<open>2 ^ 53\<close> the conversion rounds, but it never crosses \<open>2 ^ 53\<close>.\<close>

lemma round_magnitude_large:
  assumes "2 ^ 53 < n"
  shows "2 ^ 53 \<le> round_magnitude n 1"
proof -
  have n0: "0 < n" using assms by (smt (verit) zero_less_power)
  have len: "54 \<le> bitlen n" using bitlen_ge_iff_power [of 54 n] assms by simp
  define e where "e = bitlen n - 53"
  have e: "e = bitlen n - 53" and e1: "1 \<le> e"
    using len by (simp_all add: e_def)
  have "2 ^ 52 * 2 ^ nat e = (2 :: int) ^ nat (bitlen n - 1)"
    using e e1 by (simp add: power_add [symmetric] nat_add_distrib [symmetric] flip: nat_numeral)
  also have "\<dots> \<le> n" using bitlen_bounds_int [OF n0] by simp
  finally have "2 ^ 52 \<le> round_half_even n (2 ^ nat e)"
    by (intro round_half_even_ge) auto
  moreover have "(2 :: int) \<le> 2 ^ nat e"
    using e1 self_le_power [of "2 :: int" "nat e"] by simp
  ultimately have "2 ^ 52 * 2 \<le> round_half_even n (2 ^ nat e) * 2 ^ nat e"
    by (intro mult_mono) auto
  then have "(of_int (2 ^ 53) :: rat) \<le> of_int (round_half_even n (2 ^ nat e) * 2 ^ nat e)"
    by (simp only: of_int_le_iff) simp
  moreover have "e = max (bitlen n - 53) (- 1074)" using e e1 by simp
  ultimately show ?thesis using round_magnitude_eq [OF n0, of e] e1 by (simp only: if_True) auto
qed

lemma number_of_bigint_exact: "\<bar>b\<bar> \<le> 2 ^ 53 \<Longrightarrow> number_of_bigint b = Fin (of_int b)"
  by (simp add: number_of_bigint_def round_double_int_exact)

lemma number_of_bigint_above:
  assumes "2 ^ 53 < b"
  shows "Fin (2 ^ 53) \<le> number_of_bigint b"
proof -
  have "0 < b" using assms by (smt (verit) zero_less_power)
  with round_magnitude_large [OF assms] show ?thesis
    by (simp add: number_of_bigint_def round_double_def quotient_of_abs_int Let_def)
qed

lemma number_of_bigint_below:
  assumes "b < - (2 ^ 53)"
  shows "number_of_bigint b \<le> Fin (- (2 ^ 53))"
proof -
  have "b < 0" using assms by (smt (verit) zero_less_power)
  moreover from assms have "2 ^ 53 \<le> round_magnitude (- b) 1"
    by (intro round_magnitude_large) simp
  ultimately show ?thesis
    unfolding number_of_bigint_def round_double_def quotient_of_abs_int by (simp add: Let_def)
qed

lemma number_of_bigint_examples:
  "number_of_bigint (2 ^ 53 + 1) = Fin (2 ^ 53)"
  "number_of_bigint (2 ^ 53 + 3) = Fin (2 ^ 53 + 4)"
  by code_simp+

end
