(* ===== verification/Hlc.thy ===== *)
theory Hlc
  imports JsNumber
begin

text \<open>
  The hybrid logical clock: \<open>src/src/hlc/hlc-timestamp.js\<close> and
  \<open>src/src/hlc/hlc-clock-service.js\<close>.

  A timestamp is the triple of the class \<open>HLCTimestamp\<close>; its two numbers are JavaScript numbers, so
  the increments of the clock round as doubles do. The time source is an argument of the operations
  that read it. \<open>String.prototype.localeCompare\<close> depends on the host's collation and is a parameter
  \<open>lc\<close> with the laws of the locale \<open>collation\<close>; the notation of numbers that are not safe integers
  is the parameter \<open>ns\<close>.

  The lemmas show that the timestamp text round-trips, that timestamps are totally preordered, that
  the clock stays inside its logical bound, that every operation issues a timestamp beyond every one
  the clock issued or received before, and that timestamps respect the happens-before order of a
  system of nodes exchanging messages.
\<close>

subsection \<open>Number and string operations the timestamps use\<close>

definition is_js_space :: "jschar \<Rightarrow> bool" where
  "is_js_space c \<longleftrightarrow> c \<in> {9, 10, 11, 12, 13, 32, 160, 0x1680, 0x2028, 0x2029, 0x202f, 0x205f, 0x3000, 0xfeff}
     \<or> (0x2000 \<le> c \<and> c \<le> 0x200a)"

text \<open>\<open>parseInt(s, 10)\<close>: leading blanks, an optional sign, the longest run of digits.\<close>

definition parse_int :: "jsstring \<Rightarrow> jsnum" where
  "parse_int s =
     (let t = dropWhile is_js_space s;
          neg = (t \<noteq> [] \<and> hd t = of_char (CHR ''-''));
          u = (if t \<noteq> [] \<and> hd t \<in> {of_char (CHR ''-''), of_char (CHR ''+'')} then tl t else t);
          ds = fst (span_digits u)
      in if ds = [] then NaN
         else Num (number_of_bigint (if neg then - int (digits_value ds) else int (digits_value ds))))"

fun js_split :: "jschar \<Rightarrow> jsstring \<Rightarrow> jsstring list" where
  "js_split sep [] = [[]]"
| "js_split sep (c # s) =
     (if c = sep then [] # js_split sep s
      else (case js_split sep s of [] \<Rightarrow> [[c]] | p # ps \<Rightarrow> (c # p) # ps))"

fun js_join :: "jschar \<Rightarrow> jsstring list \<Rightarrow> jsstring" where
  "js_join sep [] = []"
| "js_join sep [p] = p"
| "js_join sep (p # q # ps) = p @ sep # js_join sep (q # ps)"

definition num_succ :: "xnum \<Rightarrow> xnum" where
  "num_succ x = (case x of Fin q \<Rightarrow> round_double (q + 1) | _ \<Rightarrow> x)"

definition num_sub :: "xnum \<Rightarrow> xnum \<Rightarrow> jsnum" where
  "num_sub x y =
     (case (x, y) of
        (Fin p, Fin q) \<Rightarrow> Num (round_double (p - q))
      | (PosInf, PosInf) \<Rightarrow> NaN
      | (NegInf, NegInf) \<Rightarrow> NaN
      | (PosInf, _) \<Rightarrow> Num PosInf
      | (NegInf, _) \<Rightarrow> Num NegInf
      | (_, PosInf) \<Rightarrow> Num NegInf
      | (_, NegInf) \<Rightarrow> Num PosInf)"

text \<open>A relational operator with a not-a-number operand is false.\<close>

definition num_gt :: "jsnum \<Rightarrow> xnum \<Rightarrow> bool" where
  "num_gt a y = (case a of NaN \<Rightarrow> False | Num x \<Rightarrow> y < x)"

definition num_lt :: "jsnum \<Rightarrow> xnum \<Rightarrow> bool" where
  "num_lt a y = (case a of NaN \<Rightarrow> False | Num x \<Rightarrow> x < y)"

subsection \<open>HLCTimestamp\<close>

record hlc_timestamp =
  physical :: xnum
  logical :: xnum
  nodeId :: jsstring

datatype hlc_error = HlcNotString | HlcInvalidString jsstring

definition field_separator :: jschar where
  "field_separator = of_char (CHR ''-'')"

definition hlc_toString :: "(xnum \<Rightarrow> jsstring) \<Rightarrow> hlc_timestamp \<Rightarrow> jsstring" where
  "hlc_toString ns t =
     num_to_string ns (physical t) @ field_separator #
     num_to_string ns (logical t) @ field_separator # nodeId t"

text \<open>The argument is \<open>None\<close> when it is not a string.\<close>

definition hlc_fromString :: "jsstring option \<Rightarrow> hlc_error + hlc_timestamp" where
  "hlc_fromString arg =
     (case arg of
        None \<Rightarrow> Inl HlcNotString
      | Some str \<Rightarrow>
          (let parts = js_split field_separator str in
           if length parts < 3 then Inl (HlcInvalidString str)
           else (let nid = js_join field_separator (drop 2 parts) in
             (case (parse_int (parts ! 0), parse_int (parts ! 1)) of
                (Num p, Num l) \<Rightarrow> Inr \<lparr>physical = p, logical = l, nodeId = nid\<rparr>
              | _ \<Rightarrow> Inl (HlcInvalidString str)))))"

definition hlc_tryFromString :: "jsstring option \<Rightarrow> hlc_timestamp option" where
  "hlc_tryFromString arg =
     (case arg of
        None \<Rightarrow> None
      | Some str \<Rightarrow>
          if str = [] then None
          else (case hlc_fromString (Some str) of Inl _ \<Rightarrow> None | Inr t \<Rightarrow> Some t))"

text \<open>
  \<open>compare\<close> returns a difference of numbers or a collation result; its callers read the sign.
\<close>

definition num_order :: "xnum \<Rightarrow> xnum \<Rightarrow> int" where
  "num_order x y = (if x < y then -1 else if y < x then 1 else 0)"

definition hlc_compare ::
  "(jsstring \<Rightarrow> jsstring \<Rightarrow> int) \<Rightarrow> hlc_timestamp \<Rightarrow> hlc_timestamp \<Rightarrow> int" where
  "hlc_compare lc t u =
     (if physical t \<noteq> physical u then num_order (physical t) (physical u)
      else if logical t \<noteq> logical u then num_order (logical t) (logical u)
      else lc (nodeId t) (nodeId u))"

definition hlc_isBefore where
  "hlc_isBefore lc t u \<longleftrightarrow> hlc_compare lc t u < 0"

definition hlc_isAfter where
  "hlc_isAfter lc t u \<longleftrightarrow> hlc_compare lc t u > 0"

definition hlc_equals where
  "hlc_equals lc t u \<longleftrightarrow> hlc_compare lc t u = 0"

subsection \<open>HLCClockService\<close>

record hlc_clock =
  c_physical :: xnum
  c_logical :: xnum
  c_nodeId :: jsstring
  maxDrift :: xnum
  maxLogicalCounter :: xnum
  hasLogger :: bool
  onDriftWarning :: bool
  lastDriftWarningAtMs :: "xnum option"
  suppressedDriftWarningCount :: nat

record drift_info =
  localTime :: xnum
  remoteTime :: xnum
  drift :: jsnum
  di_maxDrift :: xnum
  remoteNodeId :: jsstring

datatype hlc_effect = LogDrift drift_info nat | CallDriftCallback drift_info

text \<open>\<open>options.x ?? config.get(key) ?? default\<close>.\<close>

definition first_of :: "'a option \<Rightarrow> 'a option \<Rightarrow> 'a \<Rightarrow> 'a" where
  "first_of opt cfg def = (case opt of Some x \<Rightarrow> x | None \<Rightarrow> (case cfg of Some x \<Rightarrow> x | None \<Rightarrow> def))"

definition hlc_create ::
  "jsstring \<Rightarrow> xnum \<Rightarrow> xnum option \<Rightarrow> xnum option \<Rightarrow> xnum option \<Rightarrow> xnum option \<Rightarrow> bool \<Rightarrow> bool
   \<Rightarrow> hlc_clock" where
  "hlc_create nid t0 optDrift cfgDrift optMax cfgMax logger callback =
     \<lparr>c_physical = t0, c_logical = Fin 0, c_nodeId = nid,
      maxDrift = first_of optDrift cfgDrift (Fin 500),
      maxLogicalCounter = first_of optMax cfgMax (Fin 65535),
      hasLogger = logger, onDriftWarning = callback,
      lastDriftWarningAtMs = None, suppressedDriftWarningCount = 0\<rparr>"

definition hlc_current :: "hlc_clock \<Rightarrow> hlc_timestamp" where
  "hlc_current c = \<lparr>physical = c_physical c, logical = c_logical c, nodeId = c_nodeId c\<rparr>"

text \<open>The overflow check that ends both \<open>now\<close> and \<open>update\<close>.\<close>

definition overflow_logical :: "hlc_clock \<Rightarrow> hlc_clock" where
  "overflow_logical c =
     (if maxLogicalCounter c < c_logical c
      then c\<lparr>c_physical := num_succ (c_physical c), c_logical := Fin 0\<rparr> else c)"

definition hlc_now :: "xnum \<Rightarrow> hlc_clock \<Rightarrow> hlc_timestamp \<times> hlc_clock" where
  "hlc_now physicalNow c =
     (let c' = (if c_physical c < physicalNow
                then c\<lparr>c_physical := physicalNow, c_logical := Fin 0\<rparr>
                else overflow_logical (c\<lparr>c_logical := num_succ (c_logical c)\<rparr>))
      in (hlc_current c', c'))"

definition emitDriftWarning ::
  "drift_info \<Rightarrow> xnum \<Rightarrow> hlc_clock \<Rightarrow> hlc_effect list \<times> hlc_clock" where
  "emitDriftWarning info observedAt c =
     (if (case lastDriftWarningAtMs c of
            Some (Fin w) \<Rightarrow> num_lt (num_sub observedAt (Fin w)) (Fin 30000)
          | _ \<Rightarrow> False)
      then ([], c\<lparr>suppressedDriftWarningCount := suppressedDriftWarningCount c + 1\<rparr>)
      else (if hasLogger c then [LogDrift info (suppressedDriftWarningCount c)] else [],
            c\<lparr>lastDriftWarningAtMs := Some observedAt, suppressedDriftWarningCount := 0\<rparr>))"

definition hlc_merge :: "hlc_timestamp \<Rightarrow> xnum \<Rightarrow> hlc_clock \<Rightarrow> hlc_clock" where
  "hlc_merge remote physicalNow c =
     (let newPhysical = max (c_physical c) (max (physical remote) physicalNow) in
      if newPhysical = c_physical c \<and> newPhysical = physical remote
      then c\<lparr>c_logical := num_succ (max (c_logical c) (logical remote))\<rparr>
      else if newPhysical = c_physical c then c\<lparr>c_logical := num_succ (c_logical c)\<rparr>
      else if newPhysical = physical remote
      then c\<lparr>c_physical := newPhysical, c_logical := num_succ (logical remote)\<rparr>
      else c\<lparr>c_physical := newPhysical, c_logical := Fin 0\<rparr>)"

definition hlc_update ::
  "hlc_timestamp \<Rightarrow> xnum \<Rightarrow> hlc_clock \<Rightarrow> hlc_timestamp \<times> hlc_effect list \<times> hlc_clock" where
  "hlc_update remote physicalNow c =
     (let d = num_sub (physical remote) physicalNow;
          info = \<lparr>localTime = physicalNow, remoteTime = physical remote, drift = d,
                  di_maxDrift = maxDrift c, remoteNodeId = nodeId remote\<rparr>;
          (effects, c1) =
            (if num_gt d (maxDrift c)
             then (let (es, c1) = emitDriftWarning info physicalNow c in
                   (es @ (if onDriftWarning c then [CallDriftCallback info] else []), c1))
             else ([], c));
          c2 = overflow_logical (hlc_merge remote physicalNow c1)
      in (hlc_current c2, effects, c2))"

subsection \<open>Timestamps round-trip through their text\<close>

lemma js_split_no_sep: "sep \<notin> set s \<Longrightarrow> js_split sep s = [s]"
  by (induction s) auto

lemma js_split_append: "sep \<notin> set s \<Longrightarrow> js_split sep (s @ sep # r) = s # js_split sep r"
  by (induction s) auto

lemma js_split_not_Nil [simp]: "js_split sep s \<noteq> []"
  by (induction s) (auto split: list.splits)

lemma js_join_split [simp]: "js_join sep (js_split sep s) = s"
proof (induction s)
  case (Cons c s)
  show ?case
  proof (cases "js_split sep s")
    case (Cons p ps)
    with Cons.IH show ?thesis by (cases ps) auto
  qed simp
qed simp

lemma separator_not_digit [simp]: "char_digit field_separator = None"
  by (simp add: field_separator_def char_digit_def)

lemma separator_notin_show_nat [simp]: "field_separator \<notin> set (show_nat n)"
  using show_nat_digits [of field_separator n] by auto

lemma hd_digit_facts:
  assumes "char_digit c \<noteq> None"
  shows "\<not> is_js_space c" "c \<noteq> of_char (CHR ''-'')" "c \<noteq> of_char (CHR ''+'')"
proof -
  from assms have b: "48 \<le> unat c" "unat c \<le> 57" by (auto simp: char_digit_def split: if_splits)
  then have le: "48 \<le> c" "c \<le> 57" by (simp_all add: word_le_nat_alt)
  show "\<not> is_js_space c"
    using b unfolding is_js_space_def by (auto simp: word_le_nat_alt)
  show "c \<noteq> of_char (CHR ''-'')" "c \<noteq> of_char (CHR ''+'')" using b by auto
qed

lemma parse_int_show_nat:
  assumes "int n \<le> 2 ^ 53"
  shows "parse_int (show_nat n) = Num (Fin (of_nat n))"
proof -
  obtain c r where cr: "show_nat n = c # r" using show_nat_not_Nil [of n] by (cases "show_nat n") auto
  then have c: "char_digit c \<noteq> None" using show_nat_digits [of c n] by simp
  have sign: "c \<noteq> 43" "c \<noteq> 45" using hd_digit_facts [OF c] by simp_all
  have "fst (span_digits (c # r)) = digits_of n"
    using span_digits_show_nat [of "[]" n] cr by simp
  then have "parse_int (c # r) = Num (number_of_bigint (int n))"
    by (simp add: parse_int_def Let_def digits_value_of sign hd_digit_facts(1) [OF c]
        del: span_digits.simps)
  also have "number_of_bigint (int n) = Fin (of_int (int n))"
    using assms by (intro number_of_bigint_exact) simp
  finally show ?thesis by (simp add: cr)
qed

text \<open>The state a number-valued counter of the clock is in while arithmetic on it is exact.\<close>

definition counting :: "xnum \<Rightarrow> bool" where
  "counting x \<longleftrightarrow> (\<exists>n. x = Fin (of_nat n) \<and> int n < 2 ^ 53)"

lemma num_to_string_counting:
  "int n < 2 ^ 53 \<Longrightarrow> num_to_string ns (Fin (of_nat n)) = show_nat n"
  by (simp add: num_to_string_def is_safe_int_def max_safe_def show_int_def)

lemma hlc_text_roundtrip:
  assumes "counting (physical t)" and "counting (logical t)"
  shows "hlc_fromString (Some (hlc_toString ns t)) = Inr t"
proof -
  from assms obtain p l where p: "physical t = Fin (of_nat p)" "int p < 2 ^ 53"
    and l: "logical t = Fin (of_nat l)" "int l < 2 ^ 53" by (auto simp: counting_def)
  have str: "hlc_toString ns t =
      show_nat p @ field_separator # show_nat l @ field_separator # nodeId t"
    by (simp add: hlc_toString_def p(1) l(1) num_to_string_counting [OF p(2)]
        num_to_string_counting [OF l(2)])
  have parts: "js_split field_separator (hlc_toString ns t) =
      show_nat p # show_nat l # js_split field_separator (nodeId t)"
    by (simp add: str js_split_append)
  have "length (js_split field_separator (nodeId t)) \<noteq> 0" by simp
  then have len: "\<not> length (js_split field_separator (hlc_toString ns t)) < 3"
    unfolding parts by simp
  show ?thesis
    using len p l
    by (simp add: hlc_fromString_def parts parse_int_show_nat Let_def)
qed

subsection \<open>Timestamps are totally preordered\<close>

locale collation =
  fixes lc :: "jsstring \<Rightarrow> jsstring \<Rightarrow> int"
  assumes lc_swap: "lc t s < 0 \<longleftrightarrow> lc s t > 0"
    and lc_trans: "lc s t \<le> 0 \<Longrightarrow> lc t u \<le> 0 \<Longrightarrow> lc s u \<le> 0"
begin

lemma lc_refl: "lc s s = 0"
  using lc_swap [of s s] by (cases "lc s s" "0 :: int" rule: linorder_cases) auto

lemma compare_swap: "hlc_compare lc u t < 0 \<longleftrightarrow> hlc_compare lc t u > 0"
  by (auto simp: hlc_compare_def num_order_def lc_swap)

lemma compare_refl: "hlc_compare lc t t = 0"
  by (simp add: hlc_compare_def lc_refl)

lemma compare_le_iff:
  "hlc_compare lc t u \<le> 0 \<longleftrightarrow>
     physical t < physical u \<or>
     physical t = physical u \<and> (logical t < logical u \<or>
       logical t = logical u \<and> lc (nodeId t) (nodeId u) \<le> 0)"
  by (auto simp: hlc_compare_def num_order_def)

lemma compare_trans:
  "hlc_compare lc t u \<le> 0 \<Longrightarrow> hlc_compare lc u v \<le> 0 \<Longrightarrow> hlc_compare lc t v \<le> 0"
  unfolding compare_le_iff by (auto intro: lc_trans)

lemma before_trans:
  assumes "hlc_isBefore lc t u" and "hlc_isBefore lc u v"
  shows "hlc_isBefore lc t v"
proof -
  have "hlc_compare lc t v \<le> 0"
    using assms by (intro compare_trans [of t u v]) (auto simp: hlc_isBefore_def)
  moreover have "hlc_compare lc t v \<noteq> 0"
  proof
    assume eq: "hlc_compare lc t v = 0"
    then have "hlc_compare lc v t \<le> 0" using compare_swap [of v t] compare_swap [of t v] by linarith
    then have "hlc_compare lc v u \<le> 0"
      using assms(1) by (intro compare_trans [of v t u]) (auto simp: hlc_isBefore_def)
    with assms(2) compare_swap [of u v] show False by (auto simp: hlc_isBefore_def)
  qed
  ultimately show ?thesis by (simp add: hlc_isBefore_def)
qed

end

interpretation code_units: collation lex_compare
proof
  show "lex_compare t s < 0 \<longleftrightarrow> lex_compare s t > 0" for s t :: jsstring
    using lex_compare_swap [of s t] by auto
qed (rule lex_compare_trans)

subsection \<open>The clock stays within its bounds and only moves forward\<close>

definition stamp_less :: "hlc_timestamp \<Rightarrow> hlc_timestamp \<Rightarrow> bool" where
  "stamp_less t u \<longleftrightarrow>
     physical t < physical u \<or> physical t = physical u \<and> logical t < logical u"

definition stamp_ok :: "hlc_timestamp \<Rightarrow> bool" where
  "stamp_ok t \<longleftrightarrow> counting (physical t) \<and> counting (logical t)"

definition clock_ok :: "hlc_clock \<Rightarrow> bool" where
  "clock_ok c \<longleftrightarrow> stamp_ok (hlc_current c)"

lemma stamp_less_irrefl [simp]: "\<not> stamp_less t t"
  by (simp add: stamp_less_def)

lemma stamp_less_trans: "stamp_less t u \<Longrightarrow> stamp_less u v \<Longrightarrow> stamp_less t v"
  by (auto simp: stamp_less_def)

lemma hlc_current_simps [simp]:
  "physical (hlc_current c) = c_physical c" "logical (hlc_current c) = c_logical c"
  "nodeId (hlc_current c) = c_nodeId c"
  by (simp_all add: hlc_current_def)

lemma num_succ_counting:
  assumes "counting x"
  shows "x < num_succ x"
proof -
  from assms obtain n where n: "x = Fin (of_nat n)" "int n < 2 ^ 53" by (auto simp: counting_def)
  then have "round_double (of_int (int n + 1)) = Fin (of_int (int n + 1))"
    by (intro round_double_int_exact) simp
  with n show ?thesis by (simp add: num_succ_def)
qed

lemma counting_nonneg: "counting x \<Longrightarrow> Fin 0 \<le> x"
  by (auto simp: counting_def)

lemma counting_max: "counting x \<Longrightarrow> counting y \<Longrightarrow> counting (max x y)"
  by (simp add: max_def)

lemma overflow_logical_forward:
  assumes "counting (c_physical c)"
  shows "stamp_less (hlc_current c) (hlc_current (overflow_logical c)) \<or> overflow_logical c = c"
  using num_succ_counting [OF assms] by (simp add: overflow_logical_def stamp_less_def)

lemma stamp_less_overflow:
  assumes "counting (c_physical c)" and "stamp_less t (hlc_current c)"
  shows "stamp_less t (hlc_current (overflow_logical c))"
  using overflow_logical_forward [OF assms(1)] assms(2) by (auto intro: stamp_less_trans)

lemma hlc_now_forward:
  assumes "clock_ok c" and "hlc_now t c = (s, c')"
  shows "s = hlc_current c'" and "stamp_less (hlc_current c) s"
proof -
  from assms(1) have p: "counting (c_physical c)" and l: "counting (c_logical c)"
    by (auto simp: clock_ok_def stamp_ok_def)
  show s: "s = hlc_current c'" using assms(2) by (auto simp: hlc_now_def Let_def)
  show "stamp_less (hlc_current c) s"
  proof (cases "c_physical c < t")
    case True
    with assms(2) s show ?thesis by (auto simp: hlc_now_def Let_def stamp_less_def)
  next
    case False
    let ?d = "c\<lparr>c_logical := num_succ (c_logical c)\<rparr>"
    have "stamp_less (hlc_current c) (hlc_current ?d)"
      using num_succ_counting [OF l] by (simp add: stamp_less_def)
    with p have "stamp_less (hlc_current c) (hlc_current (overflow_logical ?d))"
      by (intro stamp_less_overflow) auto
    with assms(2) s False show ?thesis by (auto simp: hlc_now_def Let_def)
  qed
qed

lemma hlc_merge_forward:
  assumes "clock_ok c" and "stamp_ok r"
  shows "stamp_less (hlc_current c) (hlc_current (hlc_merge r t c))"
    and "stamp_less r (hlc_current (hlc_merge r t c))"
proof -
  from assms have l: "counting (c_logical c)" "counting (logical r)"
    by (auto simp: clock_ok_def stamp_ok_def)
  note succ = num_succ_counting [OF l(1)] num_succ_counting [OF l(2)]
    num_succ_counting [OF counting_max [OF l]]
  show "stamp_less (hlc_current c) (hlc_current (hlc_merge r t c))"
    using succ by (auto simp: hlc_merge_def Let_def stamp_less_def max_def split: if_splits)
  show "stamp_less r (hlc_current (hlc_merge r t c))"
    using succ by (auto simp: hlc_merge_def Let_def stamp_less_def max_def split: if_splits)
qed

lemma emitDriftWarning_current:
  "emitDriftWarning info t c = (es, c') \<Longrightarrow> hlc_current c' = hlc_current c"
  "emitDriftWarning info t c = (es, c') \<Longrightarrow> maxLogicalCounter c' = maxLogicalCounter c"
  by (auto simp: emitDriftWarning_def hlc_current_def split: if_splits)

lemma hlc_updateE:
  assumes "hlc_update r t c = (s, es, c')"
  obtains c1 where "hlc_current c1 = hlc_current c" "maxLogicalCounter c1 = maxLogicalCounter c"
    "c' = overflow_logical (hlc_merge r t c1)" "s = hlc_current c'"
  using assms
  by (auto simp: hlc_update_def Let_def split: if_splits prod.splits)
    (metis emitDriftWarning_current)+

lemma hlc_merge_physical_counting:
  "clock_ok c \<Longrightarrow> stamp_ok r \<Longrightarrow> counting t \<Longrightarrow> counting (c_physical (hlc_merge r t c))"
  by (auto simp: clock_ok_def stamp_ok_def hlc_merge_def Let_def intro: counting_max)

lemma hlc_update_forward:
  assumes "clock_ok c" and "stamp_ok r" and "counting t" and "hlc_update r t c = (s, es, c')"
  shows "s = hlc_current c'" and "stamp_less (hlc_current c) s" and "stamp_less r s"
proof -
  from assms(4) obtain c1 where c1: "hlc_current c1 = hlc_current c"
    "c' = overflow_logical (hlc_merge r t c1)" "s = hlc_current c'" by (rule hlc_updateE)
  from c1(1) assms(1) have ok: "clock_ok c1" by (simp add: clock_ok_def)
  show "s = hlc_current c'" by (rule c1(3))
  note ph = hlc_merge_physical_counting [OF ok assms(2,3)]
  show "stamp_less (hlc_current c) s"
    using stamp_less_overflow [OF ph hlc_merge_forward(1) [OF ok assms(2)]] c1 by simp
  show "stamp_less r s"
    using stamp_less_overflow [OF ph hlc_merge_forward(2) [OF ok assms(2)]] c1 by simp
qed

lemma overflow_logical_bound:
  "Fin 0 \<le> maxLogicalCounter c \<Longrightarrow> c_logical (overflow_logical c) \<le> maxLogicalCounter c"
  by (auto simp: overflow_logical_def)

lemma maxLogicalCounter_frame [simp]:
  "maxLogicalCounter (overflow_logical c) = maxLogicalCounter c"
  "maxLogicalCounter (hlc_merge r t c) = maxLogicalCounter c"
  by (auto simp: overflow_logical_def hlc_merge_def Let_def)

text \<open>
  C25: the logical counter never exceeds its configured maximum: whatever the clock held before and
  whatever time or remote timestamp an operation sees, after \<open>now\<close> and after \<open>update\<close> the counter is at
  most \<open>maxLogicalCounter\<close>, and the maximum itself does not change.
\<close>

theorem hlc_logical_bounded:
  assumes "Fin 0 \<le> maxLogicalCounter c"
  shows "c_logical (snd (hlc_now t c)) \<le> maxLogicalCounter c
    \<and> c_logical (snd (snd (hlc_update r t c))) \<le> maxLogicalCounter c
    \<and> maxLogicalCounter (snd (hlc_now t c)) = maxLogicalCounter c
    \<and> maxLogicalCounter (snd (snd (hlc_update r t c))) = maxLogicalCounter c"
proof -
  have now: "c_logical (snd (hlc_now t c)) \<le> maxLogicalCounter c
    \<and> maxLogicalCounter (snd (hlc_now t c)) = maxLogicalCounter c"
    using assms overflow_logical_bound [of "c\<lparr>c_logical := num_succ (c_logical c)\<rparr>"]
    by (simp add: hlc_now_def Let_def)
  obtain s es c' where u: "hlc_update r t c = (s, es, c')" by (metis prod_cases3)
  then obtain c1 where c1: "maxLogicalCounter c1 = maxLogicalCounter c"
    "c' = overflow_logical (hlc_merge r t c1)" by (rule hlc_updateE)
  have "c_logical c' \<le> maxLogicalCounter c"
    using overflow_logical_bound [of "hlc_merge r t c1"] assms c1 by simp
  with c1 u now show ?thesis by simp
qed

theorem hlc_logical_bounded_witness:
  "Fin 0 \<le> maxLogicalCounter (hlc_create (js ''n1'') (Fin 7) None None (Some (Fin 1)) None False False) \<and>
   c_logical (snd (hlc_now (Fin 7)
     (hlc_create (js ''n1'') (Fin 7) None None (Some (Fin 1)) None False False))) \<le> Fin 1"
  using hlc_logical_bounded [of "hlc_create (js ''n1'') (Fin 7) None None (Some (Fin 1)) None False False"
      "Fin 7"]
  by (simp add: hlc_create_def first_of_def)

text \<open>
  C26: the text of a timestamp is read back as the same timestamp, also when its node id contains
  the field separator, as long as both numbers are integers a double represents exactly.
\<close>

theorem hlc_roundtrip:
  assumes "stamp_ok t"
  shows "hlc_fromString (Some (hlc_toString ns t)) = Inr t
    \<and> hlc_tryFromString (Some (hlc_toString ns t)) = Some t"
proof -
  from assms have eq: "hlc_fromString (Some (hlc_toString ns t)) = Inr t"
    by (intro hlc_text_roundtrip) (auto simp: stamp_ok_def)
  have "hlc_toString ns t \<noteq> []" by (simp add: hlc_toString_def)
  with eq show ?thesis by (simp add: hlc_tryFromString_def)
qed

theorem hlc_roundtrip_witness:
  "stamp_ok \<lparr>physical = Fin 1700000000000, logical = Fin 3, nodeId = js ''node-a''\<rparr> \<and>
   hlc_fromString (Some (hlc_toString (\<lambda>_. [])
     \<lparr>physical = Fin 1700000000000, logical = Fin 3, nodeId = js ''node-a''\<rparr>)) =
   Inr \<lparr>physical = Fin 1700000000000, logical = Fin 3, nodeId = js ''node-a''\<rparr>"
proof -
  have "counting (Fin (of_nat 1700000000000))" "counting (Fin (of_nat 3))"
    unfolding counting_def by (rule exI, rule conjI, rule refl, simp)+
  then have h: "stamp_ok \<lparr>physical = Fin 1700000000000, logical = Fin 3, nodeId = js ''node-a''\<rparr>"
    by (simp add: stamp_ok_def)
  from h hlc_roundtrip [OF h, of "\<lambda>_. []"] show ?thesis by simp
qed

text \<open>
  C24: comparing timestamps is a total preorder for every host collation: \<open>isBefore\<close> is irreflexive
  and transitive, exactly one of \<open>isBefore\<close>, \<open>equals\<close> and \<open>isAfter\<close> holds, and swapping the operands
  swaps \<open>isBefore\<close> with \<open>isAfter\<close>.
\<close>

theorem hlc_compare_total_preorder:
  assumes "collation lc"
  shows "\<not> hlc_isBefore lc t t
    \<and> (hlc_isBefore lc t u \<and> hlc_isBefore lc u v \<longrightarrow> hlc_isBefore lc t v)
    \<and> hlc_isBefore lc t u \<noteq> (hlc_equals lc t u \<or> hlc_isAfter lc t u)
    \<and> hlc_isBefore lc t u = hlc_isAfter lc u t"
  using collation.compare_refl [OF assms, of t] collation.before_trans [OF assms, of t u v]
    collation.compare_swap [OF assms, of t u]
  by (auto simp: hlc_isBefore_def hlc_isAfter_def hlc_equals_def)

theorem hlc_compare_total_preorder_witness:
  "collation lex_compare \<and>
   hlc_isBefore lex_compare \<lparr>physical = Fin 1, logical = Fin 0, nodeId = js ''a''\<rparr>
     \<lparr>physical = Fin 1, logical = Fin 0, nodeId = js ''c''\<rparr>"
proof -
  let ?t = "\<lambda>n. \<lparr>physical = Fin 1, logical = Fin 0, nodeId = js n\<rparr>"
  have "hlc_isBefore lex_compare (?t ''a'') (?t ''b'')" "hlc_isBefore lex_compare (?t ''b'') (?t ''c'')"
    by (simp_all add: hlc_isBefore_def hlc_compare_def)
  with hlc_compare_total_preorder [OF code_units.collation_axioms, of "?t ''a''" "?t ''b''" "?t ''c''"]
  show ?thesis by (simp add: code_units.collation_axioms)
qed

subsection \<open>Timestamps respect happens-before\<close>

text \<open>
  A system of nodes, each with its clock. Every issued timestamp is logged with the node that issued
  it and, when it was issued on receipt of a message, the position in the log of the timestamp that
  message carried. The guards say that the numbers involved stay below \<open>2 ^ 53\<close>.
\<close>

record hlc_system =
  clocks :: "nat \<Rightarrow> hlc_clock"
  issued :: "(nat \<times> hlc_timestamp \<times> nat option) list"

inductive hlc_step :: "hlc_system \<Rightarrow> hlc_system \<Rightarrow> bool" where
  local_event: "clock_ok (clocks s i) \<Longrightarrow> hlc_now t (clocks s i) = (ts, c') \<Longrightarrow>
     hlc_step s (s\<lparr>clocks := (clocks s)(i := c'), issued := issued s @ [(i, ts, None)]\<rparr>)"
| receive_event: "clock_ok (clocks s i) \<Longrightarrow> k < length (issued s) \<Longrightarrow>
     remote = fst (snd (issued s ! k)) \<Longrightarrow> stamp_ok remote \<Longrightarrow> counting t \<Longrightarrow>
     hlc_update remote t (clocks s i) = (ts, es, c') \<Longrightarrow>
     hlc_step s (s\<lparr>clocks := (clocks s)(i := c'), issued := issued s @ [(i, ts, Some k)]\<rparr>)"

inductive hlc_reachable :: "hlc_system \<Rightarrow> bool" where
  hlc_start: "issued s = [] \<Longrightarrow> hlc_reachable s"
| hlc_next: "hlc_reachable s \<Longrightarrow> hlc_step s s' \<Longrightarrow> hlc_reachable s'"

inductive happens_before :: "(nat \<times> 'a \<times> nat option) list \<Rightarrow> nat \<Rightarrow> nat \<Rightarrow> bool" for es where
  same_node: "i < j \<Longrightarrow> j < length es \<Longrightarrow> fst (es ! i) = fst (es ! j) \<Longrightarrow> happens_before es i j"
| message: "j < length es \<Longrightarrow> snd (snd (es ! j)) = Some i \<Longrightarrow> happens_before es i j"
| hb_trans: "happens_before es i j \<Longrightarrow> happens_before es j k \<Longrightarrow> happens_before es i k"

abbreviation ev_node :: "nat \<times> 'a \<times> nat option \<Rightarrow> nat" where "ev_node e \<equiv> fst e"
abbreviation ev_stamp :: "nat \<times> 'a \<times> nat option \<Rightarrow> 'a" where "ev_stamp e \<equiv> fst (snd e)"
abbreviation ev_source :: "nat \<times> 'a \<times> nat option \<Rightarrow> nat option" where "ev_source e \<equiv> snd (snd e)"

definition stamp_le :: "hlc_timestamp \<Rightarrow> hlc_timestamp \<Rightarrow> bool" where
  "stamp_le t u \<longleftrightarrow> t = u \<or> stamp_less t u"

lemma stamp_le_less_trans: "stamp_le t u \<Longrightarrow> stamp_less u v \<Longrightarrow> stamp_less t v"
  by (auto simp: stamp_le_def intro: stamp_less_trans)

definition hlc_inv :: "hlc_system \<Rightarrow> bool" where
  "hlc_inv s \<longleftrightarrow>
     (\<forall>e \<in> set (issued s). stamp_le (ev_stamp e) (hlc_current (clocks s (ev_node e)))) \<and>
     (\<forall>j < length (issued s). \<forall>i < j. ev_node (issued s ! i) = ev_node (issued s ! j) \<longrightarrow>
        stamp_less (ev_stamp (issued s ! i)) (ev_stamp (issued s ! j))) \<and>
     (\<forall>j < length (issued s). \<forall>k. ev_source (issued s ! j) = Some k \<longrightarrow>
        k < j \<and> stamp_less (ev_stamp (issued s ! k)) (ev_stamp (issued s ! j)))"

lemma hlc_inv_extend:
  assumes inv: "hlc_inv s" and ts: "ts = hlc_current c'" "stamp_less (hlc_current (clocks s i)) ts"
    and src: "\<And>k. src = Some k \<Longrightarrow> k < length (issued s) \<and> stamp_less (ev_stamp (issued s ! k)) ts"
  shows "hlc_inv (s\<lparr>clocks := (clocks s)(i := c'), issued := issued s @ [(i, ts, src)]\<rparr>)"
proof -
  have bound: "stamp_le (ev_stamp e) (hlc_current (clocks s (ev_node e)))" if "e \<in> set (issued s)" for e
    using inv that by (simp add: hlc_inv_def)
  then have old: "stamp_less (ev_stamp e) ts" if "e \<in> set (issued s)" "ev_node e = i" for e
    using ts(2) that stamp_le_less_trans by blast
  have "stamp_le (ev_stamp e) (hlc_current (((clocks s)(i := c')) (ev_node e)))"
    if "e \<in> set (issued s @ [(i, ts, src)])" for e
    using that bound [of e] old [of e] ts(1) by (auto simp: stamp_le_def)
  moreover have "stamp_less (ev_stamp ((issued s @ [(i, ts, src)]) ! a))
      (ev_stamp ((issued s @ [(i, ts, src)]) ! b))"
    if "b < Suc (length (issued s))" "a < b"
      "ev_node ((issued s @ [(i, ts, src)]) ! a) = ev_node ((issued s @ [(i, ts, src)]) ! b)" for a b
  proof (cases "b = length (issued s)")
    case True
    with that old [of "issued s ! a"] show ?thesis by (simp add: nth_append)
  next
    case False
    with that inv show ?thesis by (simp add: nth_append hlc_inv_def)
  qed
  moreover have "k < b \<and> stamp_less (ev_stamp ((issued s @ [(i, ts, src)]) ! k))
      (ev_stamp ((issued s @ [(i, ts, src)]) ! b))"
    if "b < Suc (length (issued s))" "ev_source ((issued s @ [(i, ts, src)]) ! b) = Some k" for b k
  proof (cases "b = length (issued s)")
    case True
    with that src [of k] show ?thesis by (simp add: nth_append)
  next
    case False
    with that have "b < length (issued s)" "ev_source (issued s ! b) = Some k"
      by (auto simp: nth_append)
    with inv have "k < b \<and> stamp_less (ev_stamp (issued s ! k)) (ev_stamp (issued s ! b))"
      by (simp add: hlc_inv_def)
    with \<open>b < length (issued s)\<close> show ?thesis by (simp add: nth_append)
  qed
  ultimately show ?thesis by (simp add: hlc_inv_def)
qed

lemma hlc_reachable_inv: "hlc_reachable s \<Longrightarrow> hlc_inv s"
proof (induction rule: hlc_reachable.induct)
  case (hlc_start s)
  then show ?case by (simp add: hlc_inv_def)
next
  case (hlc_next s s')
  from hlc_next(2,3) show ?case
  proof (induction rule: hlc_step.induct)
    case (local_event s i t ts c')
    then show ?case
      using hlc_now_forward [OF local_event(1,2)] by (intro hlc_inv_extend) auto
  next
    case (receive_event s i k remote t ts es c')
    then show ?case
      using hlc_update_forward [OF receive_event(1,4,5,6)] by (intro hlc_inv_extend) auto
  qed
qed

text \<open>
  C11: whenever one event of the system happens before another, through any chain of events on one
  node and messages between nodes, its timestamp is strictly smaller in (physical, logical) order.
\<close>

theorem hlc_happens_before:
  assumes "hlc_reachable s" and "happens_before (issued s) i j"
  shows "stamp_less (fst (snd (issued s ! i))) (fst (snd (issued s ! j)))"
  using assms(2)
proof (induction rule: happens_before.induct)
  case (same_node i j)
  with hlc_reachable_inv [OF assms(1)] show ?case
    by (simp add: hlc_inv_def)
next
  case (message j i)
  with hlc_reachable_inv [OF assms(1)] show ?case
    by (simp add: hlc_inv_def)
next
  case (hb_trans i j k)
  then show ?case by (blast intro: stamp_less_trans)
qed

text \<open>Two nodes, one message: node 1 receives the timestamp node 0 issued, and issues a later one.\<close>

definition example_clock :: hlc_clock where
  "example_clock = hlc_create (js ''n'') (Fin 5) None None None None False False"

definition example_system :: hlc_system where
  "example_system = \<lparr>clocks = (\<lambda>_. example_clock), issued = []\<rparr>"

lemma counting_small [simp]: "counting (Fin 0)" "counting (Fin 1)" "counting (Fin 5)"
proof -
  have "counting (Fin (of_nat 0))" "counting (Fin (of_nat 1))" "counting (Fin (of_nat 5))"
    unfolding counting_def by (rule exI, rule conjI, rule refl, simp)+
  then show "counting (Fin 0)" "counting (Fin 1)" "counting (Fin 5)" by simp_all
qed

lemma example_clock_ok: "clock_ok example_clock"
  by (simp add: clock_ok_def stamp_ok_def example_clock_def hlc_create_def)

lemma example_now:
  "hlc_now (Fin 5) example_clock =
     (\<lparr>physical = Fin 5, logical = Fin 1, nodeId = js ''n''\<rparr>, example_clock\<lparr>c_logical := Fin 1\<rparr>)"
  using round_double_int_exact [of 1]
  by (simp add: hlc_now_def example_clock_def hlc_create_def num_succ_def first_of_def
      overflow_logical_def hlc_current_def)

theorem hlc_happens_before_witness:
  "\<exists>s. hlc_reachable s \<and> happens_before (issued s) 0 1 \<and>
     stamp_less (fst (snd (issued s ! 0))) (fst (snd (issued s ! 1)))"
proof -
  let ?ts = "\<lparr>physical = Fin 5, logical = Fin 1, nodeId = js ''n''\<rparr>"
  let ?s1 = "example_system\<lparr>clocks := (clocks example_system)(0 := example_clock\<lparr>c_logical := Fin 1\<rparr>),
    issued := issued example_system @ [(0, ?ts, None)]\<rparr>"
  have r1: "hlc_reachable ?s1"
    by (rule hlc_next [OF hlc_start local_event [where t = "Fin 5"]])
      (simp_all add: example_system_def example_clock_ok example_now)
  obtain ts es c' where u: "hlc_update ?ts (Fin 5) (clocks ?s1 1) = (ts, es, c')"
    by (metis prod_cases3)
  let ?s2 = "?s1\<lparr>clocks := (clocks ?s1)(1 := c'), issued := issued ?s1 @ [(1, ts, Some 0)]\<rparr>"
  have r2: "hlc_reachable ?s2"
  proof (rule hlc_next [OF r1 receive_event [where t = "Fin 5"]])
    show "clock_ok (clocks ?s1 1)" by (simp add: example_system_def example_clock_ok)
    show "?ts = fst (snd (issued ?s1 ! 0))" by (simp add: example_system_def)
    show "hlc_update ?ts (Fin 5) (clocks ?s1 1) = (ts, es, c')" by (rule u)
  qed (simp_all add: example_system_def stamp_ok_def)
  have "happens_before (issued ?s2) 0 1"
    by (rule happens_before.message) (simp_all add: example_system_def)
  with r2 hlc_happens_before [OF r2 this] show ?thesis by blast
qed

end
