(* ===== verification/RoutingKey.thy ===== *)
theory RoutingKey
  imports JsNumber
begin

text \<open>
  The comparator of partition keys: \<open>src/src/partition/split-key-comparator.js\<close>.

  Keys are JavaScript values. \<open>compareRoutingKeys\<close> is the one comparator behind every routing
  decision; \<open>compareSplitKey\<close> and \<open>resolveSplitTargetPartitionId\<close> place a key left or right of a
  split key. A thrown mismatch is an \<open>Inl\<close> value that carries the two type names of its message.

  The abstract specification is \<open>key_order\<close>: a total order per declared key type (exact numbers,
  numbers, text by its UTF-8 bytes, bytes, and tuples of those). The lemmas show that the comparator
  implements it on every declared key type, that operands outside one key space are rejected and
  never coerced, and where mixing BigInt and Number keys leaves the order.
\<close>

subsection \<open>JavaScript values as keys\<close>

text \<open>\<open>VOther t\<close> stands for every other object, function or symbol, \<open>t\<close> being its \<open>typeof\<close>.\<close>

datatype jsval =
    VUndefined
  | VNull
  | VBool bool
  | VNumber jsnum
  | VBigInt int
  | VString jsstring
  | VBuffer "8 word list"
  | VArray "jsval list"
  | VOther jsstring

fun js_typeof :: "jsval \<Rightarrow> jsstring" where
  "js_typeof VUndefined = js ''undefined''"
| "js_typeof VNull = js ''object''"
| "js_typeof (VBool _) = js ''boolean''"
| "js_typeof (VNumber _) = js ''number''"
| "js_typeof (VBigInt _) = js ''bigint''"
| "js_typeof (VString _) = js ''string''"
| "js_typeof (VBuffer _) = js ''object''"
| "js_typeof (VArray _) = js ''object''"
| "js_typeof (VOther t) = t"

text \<open>
  The operator \<open>===\<close>. Two buffers or arrays are identical only as objects; values carry no identity,
  so they count as different here. Lemma \<open>compareRoutingKeys_refl\<close> shows that nothing depends on it.
\<close>

definition strict_eq :: "jsval \<Rightarrow> jsval \<Rightarrow> bool" where
  "strict_eq a b \<longleftrightarrow> a = b \<and>
     (case a of
        VNumber NaN \<Rightarrow> False
      | VBuffer _ \<Rightarrow> False
      | VArray _ \<Rightarrow> False
      | VOther _ \<Rightarrow> False
      | _ \<Rightarrow> True)"

text \<open>
  \<open>Buffer.from(s, 'utf8')\<close>: a surrogate pair is one code point of four bytes, a lone surrogate
  becomes the replacement character.
\<close>

definition utf8_of_code_point :: "nat \<Rightarrow> 8 word list" where
  "utf8_of_code_point n =
     (if n < 0x80 then [word_of_nat n]
      else if n < 0x800 then [word_of_nat (0xC0 + n div 64), word_of_nat (0x80 + n mod 64)]
      else if n < 0x10000 then
        [word_of_nat (0xE0 + n div 4096), word_of_nat (0x80 + n div 64 mod 64),
         word_of_nat (0x80 + n mod 64)]
      else [word_of_nat (0xF0 + n div 262144), word_of_nat (0x80 + n div 4096 mod 64),
            word_of_nat (0x80 + n div 64 mod 64), word_of_nat (0x80 + n mod 64)])"

definition is_high_surrogate :: "jschar \<Rightarrow> bool" where
  "is_high_surrogate c \<longleftrightarrow> 0xD800 \<le> c \<and> c \<le> 0xDBFF"

definition is_low_surrogate :: "jschar \<Rightarrow> bool" where
  "is_low_surrogate c \<longleftrightarrow> 0xDC00 \<le> c \<and> c \<le> 0xDFFF"

fun utf8 :: "jsstring \<Rightarrow> 8 word list" where
  "utf8 [] = []"
| "utf8 [c] =
     (if is_high_surrogate c \<or> is_low_surrogate c then [0xEF, 0xBF, 0xBD]
      else utf8_of_code_point (unat c))"
| "utf8 (c # d # s) =
     (if is_high_surrogate c \<and> is_low_surrogate d
      then utf8_of_code_point (0x10000 + (unat c - 0xD800) * 1024 + (unat d - 0xDC00)) @ utf8 s
      else if is_high_surrogate c \<or> is_low_surrogate c then [0xEF, 0xBF, 0xBD] @ utf8 (d # s)
      else utf8_of_code_point (unat c) @ utf8 (d # s))"

subsection \<open>The comparator\<close>

datatype split_key_type = KNumber | KBigint | KString | KBuffer | KTuple

fun type_name :: "split_key_type \<Rightarrow> jsstring" where
  "type_name KNumber = js ''number''"
| "type_name KBigint = js ''bigint''"
| "type_name KString = js ''string''"
| "type_name KBuffer = js ''buffer''"
| "type_name KTuple = js ''tuple''"

definition supported_key_type_list :: jsstring where
  "supported_key_type_list = js ''number/bigint/string/buffer/tuple''"

datatype key_error = SplitKeyTypeMismatch jsstring jsstring

fun resolveSplitKeyType :: "jsval \<Rightarrow> split_key_type option" where
  "resolveSplitKeyType (VNumber (Num (Fin _))) = Some KNumber"
| "resolveSplitKeyType (VBigInt _) = Some KBigint"
| "resolveSplitKeyType (VString _) = Some KString"
| "resolveSplitKeyType (VBuffer _) = Some KBuffer"
| "resolveSplitKeyType (VArray _) = Some KTuple"
| "resolveSplitKeyType _ = None"

definition key_type_name :: "jsval \<Rightarrow> jsstring" where
  "key_type_name v = (case resolveSplitKeyType v of Some t \<Rightarrow> type_name t | None \<Rightarrow> js_typeof v)"

fun assertTupleElements :: "jsval list \<Rightarrow> key_error + unit" where
  "assertTupleElements [] = Inr ()"
| "assertTupleElements (e # es) =
     (if e = VNull \<or> e = VUndefined
      then Inl (SplitKeyTypeMismatch (js ''null_or_undefined_tuple_element'') supported_key_type_list)
      else if resolveSplitKeyType e = None \<or> resolveSplitKeyType e = Some KTuple
      then Inl (SplitKeyTypeMismatch (key_type_name e) supported_key_type_list)
      else assertTupleElements es)"

definition assertRoutingKeySupported :: "jsval \<Rightarrow> key_error + unit" where
  "assertRoutingKeySupported v =
     (case resolveSplitKeyType v of
        None \<Rightarrow> Inl (SplitKeyTypeMismatch (js_typeof v) supported_key_type_list)
      | Some KTuple \<Rightarrow>
          (case v of
             VArray es \<Rightarrow>
               if es = [] then Inl (SplitKeyTypeMismatch (js ''empty_tuple'') supported_key_type_list)
               else assertTupleElements es
           | _ \<Rightarrow> Inr ())
      | Some _ \<Rightarrow> Inr ())"

definition compareOrdered :: "'a::linorder \<Rightarrow> 'a \<Rightarrow> int" where
  "compareOrdered l r = (if l < r then -1 else if r < l then 1 else 0)"

abbreviation compareNumbers :: "xnum \<Rightarrow> xnum \<Rightarrow> int" where
  "compareNumbers \<equiv> compareOrdered"

abbreviation compareBigInts :: "int \<Rightarrow> int \<Rightarrow> int" where
  "compareBigInts \<equiv> compareOrdered"

definition compareBigIntWithNumber :: "int \<Rightarrow> rat \<Rightarrow> int" where
  "compareBigIntWithNumber b n =
     (if is_safe_int n then compareBigInts b \<lfloor>n\<rfloor> else compareNumbers (number_of_bigint b) (Fin n))"

definition compareUtf8Strings :: "jsstring \<Rightarrow> jsstring \<Rightarrow> int" where
  "compareUtf8Strings a b = lex_compare (utf8 a) (utf8 b)"

definition isAbsentKey :: "jsval \<Rightarrow> bool" where
  "isAbsentKey v \<longleftrightarrow> v = VNull \<or> v = VUndefined"

definition compareAbsentKeys :: "jsval \<Rightarrow> jsval \<Rightarrow> int option" where
  "compareAbsentKeys a b =
     (if isAbsentKey a \<and> isAbsentKey b then Some 0
      else if isAbsentKey a then Some (-1)
      else if isAbsentKey b then Some 1
      else None)"

definition assertPresentKeySupported :: "jsval \<Rightarrow> key_error + unit" where
  "assertPresentKeySupported v = (if isAbsentKey v then Inr () else assertRoutingKeySupported v)"

definition invertComparisonResult :: "int \<Rightarrow> int" where
  "invertComparisonResult c = (if c = -1 then 1 else if c = 1 then -1 else 0)"

definition compareMixedBigIntNumber :: "jsval \<Rightarrow> jsval \<Rightarrow> int option" where
  "compareMixedBigIntNumber a b =
     (case (a, b) of
        (VBigInt i, VNumber (Num (Fin n))) \<Rightarrow> Some (compareBigIntWithNumber i n)
      | (VNumber (Num (Fin n)), VBigInt i) \<Rightarrow>
          Some (invertComparisonResult (compareBigIntWithNumber i n))
      | _ \<Rightarrow> None)"

fun compareRoutingKeys :: "jsval \<Rightarrow> jsval \<Rightarrow> key_error + int"
  and compareTuples :: "jsval list \<Rightarrow> jsval list \<Rightarrow> key_error + int"
where
  "compareRoutingKeys a b =
     bindE (assertPresentKeySupported a) (\<lambda>_.
     bindE (assertPresentKeySupported b) (\<lambda>_.
       if strict_eq a b then Inr 0
       else (case compareAbsentKeys a b of
          Some r \<Rightarrow> Inr r
        | None \<Rightarrow>
           (case (a, b) of
              (VBuffer x, VBuffer y) \<Rightarrow> Inr (lex_compare x y)
            | (VNumber (Num (Fin x)), VNumber (Num (Fin y))) \<Rightarrow> Inr (compareNumbers (Fin x) (Fin y))
            | (VBigInt i, VBigInt j) \<Rightarrow> Inr (compareBigInts i j)
            | (VArray xs, VArray ys) \<Rightarrow> compareTuples xs ys
            | (VString s, VString t) \<Rightarrow> Inr (compareUtf8Strings s t)
            | _ \<Rightarrow>
               (case compareMixedBigIntNumber a b of
                  Some r \<Rightarrow> Inr r
                | None \<Rightarrow> Inl (SplitKeyTypeMismatch (key_type_name a) (key_type_name b)))))))"
| "compareTuples [] [] = Inr 0"
| "compareTuples [] (y # ys) = Inr (-1)"
| "compareTuples (x # xs) [] = Inr 1"
| "compareTuples (x # xs) (y # ys) =
     bindE (compareRoutingKeys x y) (\<lambda>c. if c \<noteq> 0 then Inr c else compareTuples xs ys)"

declare compareRoutingKeys.simps [simp del]

definition compareSplitKey :: "jsval \<Rightarrow> jsval \<Rightarrow> key_error + int" where
  "compareSplitKey v splitKey =
     bindE (assertRoutingKeySupported splitKey) (\<lambda>_.
     bindE (assertRoutingKeySupported v) (\<lambda>_. compareRoutingKeys v splitKey))"

record split_metadata =
  splitKey :: jsval
  targetPartitionIds :: "jsval list option"

text \<open>Destructuring an array that is too short yields \<open>undefined\<close>.\<close>

definition array_get :: "jsval list \<Rightarrow> nat \<Rightarrow> jsval" where
  "array_get xs i = (if i < length xs then xs ! i else VUndefined)"

definition resolveSplitTargetPartitionId :: "jsval \<Rightarrow> split_metadata \<Rightarrow> key_error + jsval" where
  "resolveSplitTargetPartitionId v metadata =
     (let ids = (case targetPartitionIds metadata of Some xs \<Rightarrow> xs | None \<Rightarrow> []);
          left = array_get ids 0; right = array_get ids 1
      in if v = VNull \<or> v = VUndefined then Inr right
         else bindE (compareSplitKey v (splitKey metadata)) (\<lambda>c. Inr (if c < 0 then left else right)))"

subsection \<open>The order of a declared key type\<close>

text \<open>
  \<open>CNumeric\<close> is a key column whose values arrive as BigInt or as a Number below \<open>2 ^ 53\<close> in
  magnitude, \<open>CReal\<close> one whose values are finite Numbers only.
\<close>

datatype col_type = CNumeric | CReal | CText | CBlob

datatype key_type = Scalar col_type | Composite "col_type list"

fun has_col :: "col_type \<Rightarrow> jsval \<Rightarrow> bool" where
  "has_col CNumeric (VBigInt _) = True"
| "has_col CNumeric (VNumber (Num (Fin x))) = (\<bar>x\<bar> < 2 ^ 53)"
| "has_col CReal (VNumber (Num (Fin _))) = True"
| "has_col CText (VString _) = True"
| "has_col CBlob (VBuffer _) = True"
| "has_col _ _ = False"

fun has_cols :: "col_type list \<Rightarrow> jsval list \<Rightarrow> bool" where
  "has_cols ts [] = True"
| "has_cols [] (v # vs) = False"
| "has_cols (t # ts) (v # vs) = (has_col t v \<and> has_cols ts vs)"

fun has_key_type :: "key_type \<Rightarrow> jsval \<Rightarrow> bool" where
  "has_key_type (Scalar t) v = has_col t v"
| "has_key_type (Composite ts) (VArray vs) = (vs \<noteq> [] \<and> has_cols ts vs)"
| "has_key_type (Composite ts) _ = False"

fun num_value :: "jsval \<Rightarrow> rat" where
  "num_value (VBigInt i) = of_int i"
| "num_value (VNumber (Num (Fin x))) = x"
| "num_value _ = 0"

fun bytes_value :: "jsval \<Rightarrow> 8 word list" where
  "bytes_value (VString s) = utf8 s"
| "bytes_value (VBuffer b) = b"
| "bytes_value _ = []"

definition col_order :: "col_type \<Rightarrow> jsval \<Rightarrow> jsval \<Rightarrow> int" where
  "col_order t a b =
     (if t = CNumeric \<or> t = CReal then compareOrdered (num_value a) (num_value b)
      else lex_compare (bytes_value a) (bytes_value b))"

fun tuple_order :: "col_type list \<Rightarrow> jsval list \<Rightarrow> jsval list \<Rightarrow> int" where
  "tuple_order ts [] [] = 0"
| "tuple_order ts [] (y # ys) = -1"
| "tuple_order ts (x # xs) [] = 1"
| "tuple_order [] (x # xs) (y # ys) = 0"
| "tuple_order (t # ts) (x # xs) (y # ys) =
     (if col_order t x y \<noteq> 0 then col_order t x y else tuple_order ts xs ys)"

fun key_order :: "key_type \<Rightarrow> jsval \<Rightarrow> jsval \<Rightarrow> int" where
  "key_order (Scalar t) a b = col_order t a b"
| "key_order (Composite ts) (VArray xs) (VArray ys) = tuple_order ts xs ys"
| "key_order (Composite ts) _ _ = 0"

lemma compareOrdered_eq_0 [simp]: "compareOrdered x y = 0 \<longleftrightarrow> x = y"
  by (auto simp: compareOrdered_def)

lemma compareOrdered_refl [simp]: "compareOrdered x x = 0"
  by simp

lemma compareOrdered_swap: "compareOrdered y x = - compareOrdered x y"
  by (auto simp: compareOrdered_def)

lemma compareOrdered_le: "compareOrdered x y \<le> 0 \<longleftrightarrow> x \<le> y"
  by (auto simp: compareOrdered_def)

lemma compareOrdered_values: "compareOrdered x y \<in> {-1, 0, 1}"
  by (auto simp: compareOrdered_def)

lemma invert_compareOrdered [simp]:
  "invertComparisonResult (compareOrdered x y) = compareOrdered y x"
  by (auto simp: invertComparisonResult_def compareOrdered_def)

lemma col_order_swap: "col_order t b a = - col_order t a b"
  using compareOrdered_swap lex_compare_swap by (auto simp: col_order_def)

lemma col_order_values: "col_order t a b \<in> {-1, 0, 1}"
  using compareOrdered_values [of "num_value a" "num_value b"]
    lex_compare_values [of "bytes_value a" "bytes_value b"]
  by (auto simp: col_order_def)

lemma col_order_trans:
  "col_order t a b \<le> 0 \<Longrightarrow> col_order t b c \<le> 0 \<Longrightarrow> col_order t a c \<le> 0"
  by (auto simp: col_order_def compareOrdered_le intro: lex_compare_trans split: if_splits)

lemma tuple_order_swap: "tuple_order ts ys xs = - tuple_order ts xs ys"
proof (induction ts xs ys rule: tuple_order.induct)
  case (5 t ts x xs y ys)
  then show ?case by (simp add: col_order_swap [of t y x])
qed auto

lemma tuple_order_values: "tuple_order ts xs ys \<in> {-1, 0, 1}"
  by (induction ts xs ys rule: tuple_order.induct) (use col_order_values in auto)

lemma col_order_eq_trans:
  "col_order t a b = 0 \<Longrightarrow> col_order t b c = 0 \<Longrightarrow> col_order t a c = 0"
  by (auto simp: col_order_def split: if_splits)

lemma col_order_less_trans:
  assumes "col_order t a b \<le> 0" "col_order t b c \<le> 0" "col_order t a b < 0 \<or> col_order t b c < 0"
  shows "col_order t a c < 0"
proof -
  have "col_order t a c \<le> 0" using assms(1,2) by (rule col_order_trans)
  moreover have "col_order t a c \<noteq> 0"
  proof
    assume eq: "col_order t a c = 0"
    then have eq': "col_order t c a = 0" by (simp add: col_order_swap [of t c a])
    have "col_order t b a \<le> 0" using col_order_trans [OF assms(2)] eq' by simp
    moreover have "col_order t c b \<le> 0" using col_order_trans [of t c a b] eq' assms(1) by simp
    ultimately show False
      using assms(3) col_order_swap [of t a b] col_order_swap [of t b c] by auto
  qed
  ultimately show ?thesis by simp
qed

lemma tuple_order_trans:
  "has_cols ts xs \<Longrightarrow> has_cols ts ys \<Longrightarrow> has_cols ts zs \<Longrightarrow>
   tuple_order ts xs ys \<le> 0 \<Longrightarrow> tuple_order ts ys zs \<le> 0 \<Longrightarrow> tuple_order ts xs zs \<le> 0"
proof (induction ts xs ys arbitrary: zs rule: tuple_order.induct)
  case (5 t ts x xs y ys)
  then obtain z zs' where zs: "zs = z # zs'" by (cases zs) auto
  have xy: "col_order t x y \<le> 0" and yz: "col_order t y z \<le> 0"
    using "5.prems" zs by (auto split: if_splits)
  show ?case
  proof (cases "col_order t x y < 0 \<or> col_order t y z < 0")
    case True
    from col_order_less_trans [OF xy yz this] show ?thesis by (simp add: zs)
  next
    case False
    with xy yz have eq: "col_order t x y = 0" "col_order t y z = 0" by auto
    then have "col_order t x z = 0" by (rule col_order_eq_trans)
    with eq "5.IH" [of zs'] "5.prems" zs show ?thesis by simp
  qed
next
  case (2 ts y ys)
  then show ?case by (cases zs) auto
qed auto

lemma composite_keyE:
  assumes "has_key_type (Composite ts) a"
  obtains vs where "a = VArray vs" "vs \<noteq> []" "has_cols ts vs"
  using assms by (cases a) auto

lemma key_order_swap:
  assumes "has_key_type T a" "has_key_type T b"
  shows "key_order T b a = - key_order T a b"
proof (cases T)
  case (Scalar t)
  then show ?thesis using col_order_swap [of t b a] by simp
next
  case (Composite ts)
  with assms obtain xs ys where "a = VArray xs" "b = VArray ys" by (auto elim!: composite_keyE)
  with Composite show ?thesis using tuple_order_swap [of ts ys xs] by simp
qed

lemma key_order_values:
  assumes "has_key_type T a" "has_key_type T b"
  shows "key_order T a b \<in> {-1, 0, 1}"
proof (cases T)
  case (Scalar t)
  then show ?thesis using col_order_values by simp
next
  case (Composite ts)
  with assms obtain xs ys where "a = VArray xs" "b = VArray ys" by (auto elim!: composite_keyE)
  with Composite show ?thesis using tuple_order_values by simp
qed

lemma key_order_trans:
  assumes "has_key_type T a" "has_key_type T b" "has_key_type T c"
    and "key_order T a b \<le> 0" "key_order T b c \<le> 0"
  shows "key_order T a c \<le> 0"
proof (cases T)
  case (Scalar t)
  with assms show ?thesis using col_order_trans by simp
next
  case (Composite ts)
  with assms(1-3) obtain xs ys zs where
    eq: "a = VArray xs" "b = VArray ys" "c = VArray zs" and
    cols: "has_cols ts xs" "has_cols ts ys" "has_cols ts zs"
    by (auto elim!: composite_keyE)
  show ?thesis
    using assms(4,5) tuple_order_trans [OF cols] by (simp add: eq Composite)
qed

subsection \<open>The comparator implements the order\<close>

lemma compareBigIntWithNumber_exact:
  assumes "\<bar>x\<bar> < 2 ^ 53"
  shows "compareBigIntWithNumber b x = compareOrdered (of_int b) x"
proof (cases "is_safe_int x")
  case True
  then have "x = of_int \<lfloor>x\<rfloor>" by (simp add: is_safe_int_def)
  then have "compareOrdered (of_int b) x = compareOrdered (of_int b) (of_int \<lfloor>x\<rfloor> :: rat)"
    by simp
  also have "\<dots> = compareOrdered b \<lfloor>x\<rfloor>" by (simp add: compareOrdered_def)
  finally show ?thesis using True by (simp add: compareBigIntWithNumber_def)
next
  case False
  consider "\<bar>b\<bar> \<le> 2 ^ 53" | "2 ^ 53 < b" | "b < - (2 ^ 53)" by linarith
  then show ?thesis
  proof cases
    case 1
    with False show ?thesis
      by (simp add: compareBigIntWithNumber_def number_of_bigint_exact compareOrdered_def)
  next
    case 2
    from assms have "Fin x < Fin (2 ^ 53)" by simp
    also have "\<dots> \<le> number_of_bigint b" using 2 by (rule number_of_bigint_above)
    finally have lt: "Fin x < number_of_bigint b" .
    have "x < 2 ^ 53" using assms by simp
    also have "(2 ^ 53 :: rat) < of_int b"
      using of_int_less_iff [of "2 ^ 53" b, where 'a = rat] 2 by simp
    finally show ?thesis using lt False
      by (auto simp: compareBigIntWithNumber_def compareOrdered_def)
  next
    case 3
    have "number_of_bigint b \<le> Fin (- (2 ^ 53))" using 3 by (rule number_of_bigint_below)
    also have "\<dots> < Fin x" using assms by simp
    finally have lt: "number_of_bigint b < Fin x" .
    have "of_int b < (- (2 ^ 53) :: rat)"
      using of_int_less_iff [of b "- (2 ^ 53)", where 'a = rat] 3 by simp
    also have "\<dots> < x" using assms by simp
    finally show ?thesis using lt False
      by (auto simp: compareBigIntWithNumber_def compareOrdered_def)
  qed
qed

lemma has_col_supported: "has_col t v \<Longrightarrow> assertPresentKeySupported v = Inr ()"
  by (cases "(t, v)" rule: has_col.cases)
    (auto simp: assertPresentKeySupported_def assertRoutingKeySupported_def isAbsentKey_def)

lemma has_col_present: "has_col t v \<Longrightarrow> \<not> isAbsentKey v"
  by (cases t; cases v) (auto simp: isAbsentKey_def)

lemma strict_eq_order: "has_col t a \<Longrightarrow> has_col t b \<Longrightarrow> strict_eq a b \<Longrightarrow> col_order t a b = 0"
  by (simp add: strict_eq_def col_order_def)

lemma has_col_iff:
  "has_col CNumeric v \<longleftrightarrow> (\<exists>i. v = VBigInt i) \<or> (\<exists>x. v = VNumber (Num (Fin x)) \<and> \<bar>x\<bar> < 2 ^ 53)"
  "has_col CReal v \<longleftrightarrow> (\<exists>x. v = VNumber (Num (Fin x)))"
  "has_col CText v \<longleftrightarrow> (\<exists>s. v = VString s)"
  "has_col CBlob v \<longleftrightarrow> (\<exists>b. v = VBuffer b)"
  by (auto elim: has_col.elims(2))

lemma compareRoutingKeys_col:
  assumes "has_col t a" "has_col t b"
  shows "compareRoutingKeys a b = Inr (col_order t a b)"
proof (cases "strict_eq a b")
  case True
  with assms strict_eq_order [OF assms] show ?thesis
    by (simp add: compareRoutingKeys.simps [of a b] has_col_supported)
next
  case False
  then have "compareRoutingKeys a b =
      (case (a, b) of
         (VBuffer x, VBuffer y) \<Rightarrow> Inr (lex_compare x y)
       | (VNumber (Num (Fin x)), VNumber (Num (Fin y))) \<Rightarrow> Inr (compareNumbers (Fin x) (Fin y))
       | (VBigInt i, VBigInt j) \<Rightarrow> Inr (compareBigInts i j)
       | (VArray xs, VArray ys) \<Rightarrow> compareTuples xs ys
       | (VString s, VString t) \<Rightarrow> Inr (compareUtf8Strings s t)
       | _ \<Rightarrow>
          (case compareMixedBigIntNumber a b of
             Some r \<Rightarrow> Inr r
           | None \<Rightarrow> Inl (SplitKeyTypeMismatch (key_type_name a) (key_type_name b))))"
    using assms
    by (simp add: compareRoutingKeys.simps [of a b] has_col_supported compareAbsentKeys_def
        has_col_present)
  also have "\<dots> = Inr (col_order t a b)"
    using assms
    by (cases t; simp add: has_col_iff; elim disjE exE conjE;
        simp add: col_order_def compareUtf8Strings_def compareMixedBigIntNumber_def
          compareBigIntWithNumber_exact; simp add: compareOrdered_def)
  finally show ?thesis .
qed

lemma has_cols_supported: "has_cols ts vs \<Longrightarrow> assertTupleElements vs = Inr ()"
proof (induction ts vs rule: has_cols.induct)
  case (3 t ts v vs)
  then have "resolveSplitKeyType v \<noteq> None \<and> resolveSplitKeyType v \<noteq> Some KTuple"
    by (cases "(t, v)" rule: has_col.cases) auto
  with 3 show ?case by auto
qed auto

lemma compareTuples_cols:
  "has_cols ts xs \<Longrightarrow> has_cols ts ys \<Longrightarrow> compareTuples xs ys = Inr (tuple_order ts xs ys)"
  by (induction ts xs ys rule: tuple_order.induct) (auto simp: compareRoutingKeys_col)

lemma compareRoutingKeys_arrays:
  assumes "assertPresentKeySupported (VArray xs) = Inr ()" "assertPresentKeySupported (VArray ys) = Inr ()"
  shows "compareRoutingKeys (VArray xs) (VArray ys) = compareTuples xs ys"
  using assms by (simp add: compareRoutingKeys.simps compareAbsentKeys_def isAbsentKey_def strict_eq_def)

lemma array_supported:
  "has_cols ts vs \<Longrightarrow> vs \<noteq> [] \<Longrightarrow> assertPresentKeySupported (VArray vs) = Inr ()"
  by (simp add: assertPresentKeySupported_def assertRoutingKeySupported_def isAbsentKey_def
      has_cols_supported)

lemma compareRoutingKeys_typed:
  assumes "has_key_type T a" "has_key_type T b"
  shows "compareRoutingKeys a b = Inr (key_order T a b)"
proof (cases T)
  case (Scalar t)
  with assms show ?thesis by (simp add: compareRoutingKeys_col)
next
  case (Composite ts)
  with assms obtain xs ys where "a = VArray xs" "b = VArray ys" "xs \<noteq> []" "ys \<noteq> []"
    "has_cols ts xs" "has_cols ts ys" by (auto elim!: composite_keyE)
  with Composite show ?thesis
    by (simp add: compareRoutingKeys_arrays array_supported compareTuples_cols)
qed

lemma assertTupleElements_ok:
  "assertTupleElements es = Inr () \<longleftrightarrow>
     (\<forall>e \<in> set es. resolveSplitKeyType e \<noteq> None \<and> resolveSplitKeyType e \<noteq> Some KTuple)"
  by (induction es) auto

lemma compareRoutingKeys_scalar_refl:
  assumes "resolveSplitKeyType a \<noteq> None" "resolveSplitKeyType a \<noteq> Some KTuple"
  shows "compareRoutingKeys a a = Inr 0"
proof -
  have "assertPresentKeySupported a = Inr ()"
    using assms by (auto simp: assertPresentKeySupported_def assertRoutingKeySupported_def
        split: option.splits split_key_type.splits)
  moreover have "compareAbsentKeys a a = None"
    using assms by (auto simp: compareAbsentKeys_def isAbsentKey_def)
  ultimately show ?thesis
    using assms by (cases a rule: resolveSplitKeyType.cases) (auto simp: compareRoutingKeys.simps strict_eq_def)
qed

lemma compareTuples_refl: "assertTupleElements xs = Inr () \<Longrightarrow> compareTuples xs xs = Inr 0"
proof (induction xs)
  case (Cons x xs)
  then have "compareRoutingKeys x x = Inr 0" "assertTupleElements xs = Inr ()"
    using assertTupleElements_ok [of "x # xs"] assertTupleElements_ok [of xs]
    by (auto intro: compareRoutingKeys_scalar_refl)
  with Cons.IH show ?case by simp
qed simp

text \<open>
  A supported key equals itself under the structural comparison, so the identity test in front of
  it never decides a result on its own.
\<close>

lemma compareRoutingKeys_refl:
  assumes "assertPresentKeySupported a = Inr ()"
  shows "compareRoutingKeys a a = Inr 0"
proof (cases "isAbsentKey a \<or> (\<exists>xs. a = VArray xs)")
  case True
  then show ?thesis
  proof
    assume "isAbsentKey a"
    with assms show ?thesis by (auto simp: compareRoutingKeys.simps isAbsentKey_def strict_eq_def)
  next
    assume "\<exists>xs. a = VArray xs"
    then obtain xs where a: "a = VArray xs" by blast
    with assms have "assertTupleElements xs = Inr ()"
      by (auto simp: assertPresentKeySupported_def assertRoutingKeySupported_def isAbsentKey_def
          split: if_splits)
    with a assms show ?thesis by (simp add: compareRoutingKeys_arrays compareTuples_refl)
  qed
next
  case False
  then have "resolveSplitKeyType a \<noteq> None" "resolveSplitKeyType a \<noteq> Some KTuple"
    using assms by (auto simp: assertPresentKeySupported_def assertRoutingKeySupported_def
        split: option.splits elim: resolveSplitKeyType.elims)
  then show ?thesis by (rule compareRoutingKeys_scalar_refl)
qed

text \<open>
  C12: on the keys of one declared key type the comparator implements the order of that type: it
  never throws and its result is the comparison of the exact numeric values, of the UTF-8 bytes, of
  the raw bytes, or, for tuples, of the first differing element.
\<close>

theorem routing_compare_refines_key_order:
  assumes "has_key_type T a" and "has_key_type T b"
  shows "compareRoutingKeys a b = Inr (key_order T a b)"
  using assms by (rule compareRoutingKeys_typed)

theorem routing_compare_refines_key_order_witness:
  "has_key_type (Composite [CNumeric, CText]) (VArray [VBigInt 7, VString (js ''b'')]) \<and>
   has_key_type (Composite [CNumeric, CText]) (VArray [VNumber (Num (Fin 7)), VString (js ''c'')]) \<and>
   compareRoutingKeys (VArray [VBigInt 7, VString (js ''b'')])
     (VArray [VNumber (Num (Fin 7)), VString (js ''c'')]) =
   Inr (key_order (Composite [CNumeric, CText]) (VArray [VBigInt 7, VString (js ''b'')])
     (VArray [VNumber (Num (Fin 7)), VString (js ''c'')]))"
proof -
  have h: "has_key_type (Composite [CNumeric, CText]) (VArray [VBigInt 7, VString (js ''b'')])"
    "has_key_type (Composite [CNumeric, CText]) (VArray [VNumber (Num (Fin 7)), VString (js ''c'')])"
    by simp_all
  from h routing_compare_refines_key_order [OF h] show ?thesis by simp
qed

text \<open>
  C19: the comparator is a total order on the keys of one declared key type: it answers one of -1, 0
  and 1, swapping the operands negates the answer, and \<open>\<le>\<close> is transitive.
\<close>

theorem routing_compare_total_order:
  assumes "has_key_type T a" and "has_key_type T b" and "has_key_type T c"
  shows "\<exists>r s t. compareRoutingKeys a b = Inr r \<and> compareRoutingKeys b a = Inr (- r)
    \<and> compareRoutingKeys b c = Inr s \<and> compareRoutingKeys a c = Inr t
    \<and> r \<in> {-1, 0, 1} \<and> (r \<le> 0 \<and> s \<le> 0 \<longrightarrow> t \<le> 0)"
  using assms key_order_swap [OF assms(1,2)] key_order_values [OF assms(1,2)]
    key_order_trans [OF assms]
  by (simp add: compareRoutingKeys_typed)

theorem routing_compare_total_order_witness:
  "\<exists>r s t. compareRoutingKeys (VString (js ''a'')) (VString (js ''ab'')) = Inr r
    \<and> compareRoutingKeys (VString (js ''ab'')) (VString (js ''a'')) = Inr (- r)
    \<and> compareRoutingKeys (VString (js ''ab'')) (VString (js ''b'')) = Inr s
    \<and> compareRoutingKeys (VString (js ''a'')) (VString (js ''b'')) = Inr t
    \<and> r \<in> {-1, 0, 1} \<and> (r \<le> 0 \<and> s \<le> 0 \<longrightarrow> t \<le> 0)"
  by (rule routing_compare_total_order [where T = "Scalar CText"]) simp_all

text \<open>
  C23: no coercion: when the comparator returns a value for two present keys, both have a supported
  type and it is the same type, or they are a BigInt and a finite Number. A key of an unsupported
  type (NaN, an infinity, a boolean, an object) is rejected whatever it is compared with.
\<close>

theorem routing_compare_never_coerces:
  assumes "compareRoutingKeys a b = Inr r"
  shows "(isAbsentKey a \<or> resolveSplitKeyType a \<noteq> None) \<and> (isAbsentKey b \<or> resolveSplitKeyType b \<noteq> None)
    \<and> (\<not> isAbsentKey a \<and> \<not> isAbsentKey b \<longrightarrow>
         resolveSplitKeyType a = resolveSplitKeyType b \<or>
         {resolveSplitKeyType a, resolveSplitKeyType b} = {Some KNumber, Some KBigint})"
proof -
  have supp: "assertPresentKeySupported a = Inr ()" "assertPresentKeySupported b = Inr ()"
    using assms by (auto simp: compareRoutingKeys.simps [of a b] err_simps)
  then have typed: "isAbsentKey a \<or> resolveSplitKeyType a \<noteq> None"
    "isAbsentKey b \<or> resolveSplitKeyType b \<noteq> None"
    by (auto simp: assertPresentKeySupported_def assertRoutingKeySupported_def split: if_splits option.splits)
  have "resolveSplitKeyType a = resolveSplitKeyType b \<or>
         {resolveSplitKeyType a, resolveSplitKeyType b} = {Some KNumber, Some KBigint}"
    if present: "\<not> isAbsentKey a" "\<not> isAbsentKey b"
  proof -
    have ta: "resolveSplitKeyType a \<noteq> None" and tb: "resolveSplitKeyType b \<noteq> None"
      using typed present by auto
    have "compareAbsentKeys a b = None" using present by (simp add: compareAbsentKeys_def)
    with assms compareRoutingKeys.simps [of a b] supp ta tb show ?thesis
      by (cases a rule: resolveSplitKeyType.cases; cases b rule: resolveSplitKeyType.cases)
        (auto simp: compareMixedBigIntNumber_def strict_eq_def)
  qed
  with typed show ?thesis by blast
qed

theorem routing_compare_never_coerces_witness:
  "compareRoutingKeys (VBigInt 3) (VNumber (Num (Fin 2))) = Inr 1 \<and>
   {resolveSplitKeyType (VBigInt 3), resolveSplitKeyType (VNumber (Num (Fin 2)))} =
     {Some KNumber, Some KBigint}"
proof -
  have h: "compareRoutingKeys (VBigInt 3) (VNumber (Num (Fin 2))) = Inr 1"
    by (subst compareRoutingKeys_typed [where T = "Scalar CNumeric"])
      (simp_all add: col_order_def compareOrdered_def)
  with routing_compare_never_coerces [OF h] show ?thesis by (simp add: isAbsentKey_def)
qed

text \<open>
  C27: outside the declared key types the order breaks: a Number that is not a safe integer compares
  with a BigInt only after the BigInt was rounded to a double. \<open>2 ^ 53 + 1\<close> and \<open>2 ^ 53\<close> are different
  BigInt keys that both compare equal to the Number \<open>2 ^ 53\<close>.
\<close>

theorem routing_compare_mixed_not_transitive:
  "compareRoutingKeys (VBigInt (2 ^ 53 + 1)) (VNumber (Num (Fin (2 ^ 53)))) = Inr 0
   \<and> compareRoutingKeys (VNumber (Num (Fin (2 ^ 53)))) (VBigInt (2 ^ 53)) = Inr 0
   \<and> compareRoutingKeys (VBigInt (2 ^ 53 + 1)) (VBigInt (2 ^ 53)) = Inr 1"
proof -
  have unsafe: "\<not> is_safe_int (2 ^ 53)" by (simp add: is_safe_int_def max_safe_def)
  have r: "number_of_bigint (2 ^ 53 + 1) = Fin (2 ^ 53)" "number_of_bigint (2 ^ 53) = Fin (2 ^ 53)"
    using number_of_bigint_examples(1) number_of_bigint_exact [of "2 ^ 53"] by simp_all
  have c: "compareBigIntWithNumber (2 ^ 53 + 1) (2 ^ 53) = 0" "compareBigIntWithNumber (2 ^ 53) (2 ^ 53) = 0"
    using r unsafe by (simp_all only: compareBigIntWithNumber_def if_False) simp_all
  have "compareRoutingKeys (VBigInt i) (VNumber (Num (Fin x))) = Inr (compareBigIntWithNumber i x)" for i x
    by (simp add: compareRoutingKeys.simps assertPresentKeySupported_def assertRoutingKeySupported_def
        strict_eq_def isAbsentKey_def compareAbsentKeys_def compareMixedBigIntNumber_def)
  moreover have "compareRoutingKeys (VNumber (Num (Fin x))) (VBigInt i) =
      Inr (invertComparisonResult (compareBigIntWithNumber i x))" for i x
    by (simp add: compareRoutingKeys.simps assertPresentKeySupported_def assertRoutingKeySupported_def
        strict_eq_def isAbsentKey_def compareAbsentKeys_def compareMixedBigIntNumber_def)
  moreover have "compareRoutingKeys (VBigInt (2 ^ 53 + 1)) (VBigInt (2 ^ 53)) = Inr 1"
    by (subst compareRoutingKeys_typed [where T = "Scalar CNumeric"])
      (simp_all add: col_order_def compareOrdered_def)
  ultimately show ?thesis by (simp only: c) (simp add: invertComparisonResult_def)
qed

end
