(* ===== verification/JsSort.thy ===== *)
theory JsSort
  imports Prelude "HOL-Library.Multiset"
begin

text \<open>
  Sorting of the language's standard library: \<open>Array.prototype.sort\<close> with a comparator, which may
  throw. The lemmas say that the result is a permutation of the input, that it is in order when the
  comparator is consistent, and that sorting never throws when the comparator never does.
\<close>

text \<open>
  \<open>Array.prototype.sort\<close> with a comparator that may throw: a stable sort. For a consistent comparator
  the result does not depend on the algorithm; this one inserts the elements from left to right.
\<close>

fun insert_by :: "('a \<Rightarrow> 'a \<Rightarrow> 'e + int) \<Rightarrow> 'a \<Rightarrow> 'a list \<Rightarrow> 'e + 'a list" where
  "insert_by cmp x [] = Inr [x]"
| "insert_by cmp x (y # ys) =
     bindE (cmp x y) (\<lambda>c. if c < 0 then Inr (x # y # ys)
                           else bindE (insert_by cmp x ys) (\<lambda>zs. Inr (y # zs)))"

fun sort_by :: "('a \<Rightarrow> 'a \<Rightarrow> 'e + int) \<Rightarrow> 'a list \<Rightarrow> 'a list \<Rightarrow> 'e + 'a list" where
  "sort_by cmp acc [] = Inr acc"
| "sort_by cmp acc (x # xs) = bindE (insert_by cmp x acc) (\<lambda>acc'. sort_by cmp acc' xs)"

lemma insert_by_mset: "insert_by cmp x ys = Inr zs \<Longrightarrow> mset zs = add_mset x (mset ys)"
  by (induction ys arbitrary: zs) (auto simp: err_simps split: if_splits)

lemma sort_by_mset: "sort_by cmp acc xs = Inr zs \<Longrightarrow> mset zs = mset acc + mset xs"
  by (induction xs arbitrary: acc) (auto simp: err_simps dest: insert_by_mset)

text \<open>A comparator result of at most zero between neighbours.\<close>

lemma insert_by_sorted:
  assumes "insert_by cmp x ys = Inr zs" "successively R ys"
    and "\<And>y r. y \<in> set ys \<Longrightarrow> cmp x y = Inr r \<Longrightarrow> if r < 0 then R x y else R y x"
  shows "successively R zs \<and> (zs \<noteq> [] \<and> ys \<noteq> [] \<longrightarrow> hd zs = x \<or> hd zs = hd ys)"
  using assms
proof (induction ys arbitrary: zs)
  case (Cons y ys)
  obtain r where r: "cmp x y = Inr r" using Cons.prems(1) by (auto simp: err_simps)
  show ?case
  proof (cases "r < 0")
    case True
    with r Cons.prems Cons.prems(3) [of y r] show ?thesis by auto
  next
    case False
    with r Cons.prems(1) obtain ws where ws: "insert_by cmp x ys = Inr ws" "zs = y # ws"
      by (auto simp: err_simps)
    note sorted = Cons.prems(2)
    then have sub: "successively R ys" by (cases ys) auto
    have ih: "successively R ws \<and> (ws \<noteq> [] \<and> ys \<noteq> [] \<longrightarrow> hd ws = x \<or> hd ws = hd ys)"
      by (rule Cons.IH [OF ws(1) sub]) (use Cons.prems(3) in auto)
    have yx: "R y x" using Cons.prems(3) [of y r] r False by simp
    have "R y (hd ws)" if "ws \<noteq> []"
    proof (cases ys)
      case Nil
      with ws(1) yx show ?thesis by auto
    next
      case (Cons y' ys')
      then show ?thesis using ih that yx sorted by auto
    qed
    with ih ws show ?thesis by (cases ws) auto
  qed
qed simp

lemma sort_by_sorted:
  assumes "sort_by cmp acc xs = Inr zs" "successively R acc"
    and "\<And>x y r. x \<in> set xs \<Longrightarrow> y \<in> set acc \<union> set xs \<Longrightarrow> cmp x y = Inr r \<Longrightarrow> if r < 0 then R x y else R y x"
  shows "successively R zs"
  using assms
proof (induction xs arbitrary: acc)
  case (Cons x xs)
  then obtain acc' where acc': "insert_by cmp x acc = Inr acc'" "sort_by cmp acc' xs = Inr zs"
    by (auto simp: err_simps)
  have "successively R acc'"
    using insert_by_sorted [OF acc'(1) Cons.prems(2)] Cons.prems(3) by simp
  moreover have "set acc' = insert x (set acc)"
    using insert_by_mset [OF acc'(1)] by (metis set_mset_add_mset_insert set_mset_mset)
  ultimately show ?case using acc'(2) Cons.prems(3) by (intro Cons.IH [of acc']) auto
qed simp

lemma successively_tl_mp:
  "successively P xs \<Longrightarrow> (\<And>a b. b \<in> set (tl xs) \<Longrightarrow> P a b \<Longrightarrow> Q a b) \<Longrightarrow> successively Q xs"
  by (induction xs rule: induct_list012) auto

text \<open>Sorting with a comparator that never throws.\<close>

definition js_sort :: "('a \<Rightarrow> 'a \<Rightarrow> int) \<Rightarrow> 'a list \<Rightarrow> 'a list" where
  "js_sort cmp xs =
     (case sort_by (\<lambda>a b. Inr (cmp a b) :: unit + int) [] xs of Inr ys \<Rightarrow> ys | Inl _ \<Rightarrow> [])"

lemma insert_by_total: "\<exists>zs. insert_by (\<lambda>a b. Inr (cmp a b)) x ys = Inr zs"
  by (induction ys) auto

lemma sort_by_total: "\<exists>zs. sort_by (\<lambda>a b. Inr (cmp a b) :: 'e + int) acc xs = Inr zs"
proof (induction xs arbitrary: acc)
  case (Cons x xs)
  obtain zs where "insert_by (\<lambda>a b. Inr (cmp a b) :: 'e + int) x acc = Inr zs"
    by (rule exE [OF insert_by_total [of cmp x acc]])
  with Cons show ?case by simp
qed simp

lemma js_sort_eq: "sort_by (\<lambda>a b. Inr (cmp a b) :: unit + int) [] xs = Inr (js_sort cmp xs)"
proof -
  obtain zs where "sort_by (\<lambda>a b. Inr (cmp a b) :: unit + int) [] xs = Inr zs"
    by (rule exE [OF sort_by_total [of cmp "[]" xs]])
  then show ?thesis by (simp add: js_sort_def)
qed

lemma mset_js_sort [simp]: "mset (js_sort cmp xs) = mset xs"
  using sort_by_mset [OF js_sort_eq] by simp

lemma set_js_sort [simp]: "set (js_sort cmp xs) = set xs"
  using mset_js_sort [of cmp xs] by (metis set_mset_mset)

lemma length_js_sort [simp]: "length (js_sort cmp xs) = length xs"
  using mset_js_sort [of cmp xs] by (metis size_mset)

lemma js_sort_sorted:
  assumes "\<And>x y. x \<in> set xs \<Longrightarrow> y \<in> set xs \<Longrightarrow> if cmp x y < 0 then R x y else R y x"
  shows "successively R (js_sort cmp xs)"
  by (rule sort_by_sorted [OF js_sort_eq]) (use assms in auto)

end
