(* ===== verification/KeyRangeValidation.thy ===== *)
theory KeyRangeValidation
  imports KeyRange
begin

text \<open>
  What \<open>addPartition\<close> and \<open>validateRanges\<close> of \<open>src/src/partition/key-range-manager.js\<close> guarantee: an
  accepted range is disjoint from all others, and a table whose ranges validate has one owner for
  every key as long as at most one range is open below. The last section shows the table with two
  full ranges that validates as well.
\<close>

subsection \<open>Adding a range\<close>

definition disjoint_ranges :: "key_type \<Rightarrow> key_range_manager \<Rightarrow> bool" where
  "disjoint_ranges T m \<longleftrightarrow> (\<forall>k p q. has_key_type T k \<and> owns m p k \<and> owns m q k \<longrightarrow> p = q)"

lemma check_overlaps_ok:
  "check_overlaps pid r m = Inr () \<longleftrightarrow>
     (\<forall>(q, r') \<in> set m. q \<noteq> pid \<longrightarrow> range_overlaps r r' = Inr False)"
proof (induction m)
  case (Cons x m)
  obtain q r' where "x = (q, r')" by (cases x)
  with Cons show ?case by (cases "range_overlaps r r'") auto
qed simp

text \<open>
  C21: \<open>addPartition\<close> keeps the ranges disjoint. It accepts a range only when no key of the table's key
  type lies both in it and in the range of another partition, and it rejects with the id of a
  partition whose range it found to overlap.
\<close>

theorem addPartition_keeps_disjoint:
  assumes "jm_wf (krm_ranges m)" and "\<forall>p r. getRange m p = Some r \<longrightarrow> typed_range T r"
    and "typed_range T (as_key_range arg)" and "disjoint_ranges T m"
  shows "case addPartition pid arg m of
      Inr m' \<Rightarrow> disjoint_ranges T m' \<and> getRange m' pid = Some (as_key_range arg)
        \<and> (\<forall>q. q \<noteq> pid \<longrightarrow> getRange m' q = getRange m q)
    | Inl e \<Rightarrow> \<exists>q r. q \<noteq> pid \<and> getRange m q = Some r \<and> e = RangeOverlap pid q
        \<and> range_overlaps (as_key_range arg) r = Inr True"
proof (cases "check_overlaps pid (as_key_range arg) (krm_ranges m)")
  case (Inr u)
  let ?m' = "m\<lparr>krm_ranges := jm_set pid (as_key_range arg) (krm_ranges m)\<rparr>"
  have "disjoint_ranges T ?m'"
    unfolding disjoint_ranges_def
  proof (intro allI impI, elim conjE)
    fix k p q
    assume k: "has_key_type T k" and o: "owns ?m' p k" "owns ?m' q k"
    have clash: False if x: "x \<noteq> pid" "owns ?m' x k" "owns ?m' pid k" for x
    proof -
      obtain r where r: "jm_get (krm_ranges m) x = Some r" "range_contains r k = Inr True"
        using x by (auto simp: owns_def jm_simps)
      then have "range_overlaps (as_key_range arg) r = Inr False"
        using Inr x(1) assms(1) check_overlaps_ok [of pid "as_key_range arg" "krm_ranges m"]
        by (auto simp: jm_get_in_set)
      moreover have "range_contains (as_key_range arg) k = Inr True"
        using x(3) by (simp add: owns_def jm_simps)
      moreover have "typed_range T r" using assms(2) r(1) by (simp add: getRange_def)
      ultimately show False using not_overlapping_disjoint [OF assms(3) _ _ k] r(2) by blast
    qed
    show "p = q"
    proof (cases "p = pid \<or> q = pid")
      case True
      with clash [of p] clash [of q] o show ?thesis by auto
    next
      case False
      with o have "owns m p k" "owns m q k" by (auto simp: owns_def jm_simps)
      with k assms(4) show ?thesis unfolding disjoint_ranges_def by blast
    qed
  qed
  with Inr show ?thesis by (simp add: addPartition_def Let_def getRange_def jm_simps)
next
  case (Inl e)
  have "\<exists>q r. q \<noteq> pid \<and> (q, r) \<in> set ms \<and> e = RangeOverlap pid q \<and> range_overlaps (as_key_range arg) r = Inr True"
    if "check_overlaps pid (as_key_range arg) ms = Inl e" "\<forall>(p, r) \<in> set ms. typed_range T r" for ms
    using that
  proof (induction ms)
    case (Cons x ms)
    obtain q r where x: "x = (q, r)" by (cases x)
    obtain b where "range_overlaps (as_key_range arg) r = Inr b"
      using range_overlaps_typed [OF assms(3), of r] Cons.prems(2) x by auto
    with Cons x show ?case by (cases "q = pid"; cases b) auto
  qed simp
  from this [OF Inl] assms(1,2) Inl show ?thesis
    by (auto simp: addPartition_def getRange_def jm_get_in_set)
qed

theorem addPartition_keeps_disjoint_witness:
  "disjoint_ranges (Scalar CNumeric) two_partitions \<and>
   (case addPartition (js ''p4'') (PlainObject \<lparr>obj_start = VUndefined, obj_end = VBigInt 2\<rparr>) two_partitions of
      Inr m' \<Rightarrow> disjoint_ranges (Scalar CNumeric) m' \<and>
        getRange m' (js ''p4'') = Some (as_key_range (PlainObject \<lparr>obj_start = VUndefined, obj_end = VBigInt 2\<rparr>))
        \<and> (\<forall>q. q \<noteq> js ''p4'' \<longrightarrow> getRange m' q = getRange two_partitions q)
    | Inl e \<Rightarrow> \<exists>q r. q \<noteq> js ''p4'' \<and> getRange two_partitions q = Some r \<and> e = RangeOverlap (js ''p4'') q
        \<and> range_overlaps (as_key_range (PlainObject \<lparr>obj_start = VUndefined, obj_end = VBigInt 2\<rparr>)) r = Inr True)"
proof -
  note t = krm_reachable_tiled [OF two_partitions_reachable]
  have d: "disjoint_ranges (Scalar CNumeric) two_partitions"
    using t unfolding tiled_def disjoint_ranges_def by blast
  moreover have "\<forall>p r. getRange two_partitions p = Some r \<longrightarrow> typed_range (Scalar CNumeric) r"
    using t by (simp add: tiled_def getRange_def range_ok_def)
  ultimately show ?thesis
    using t by (intro conjI addPartition_keeps_disjoint)
      (simp_all add: tiled_def typed_range_def range_fromObject_def KeyRange_new_def default_null_def)
qed

subsection \<open>Validation\<close>

text \<open>
  \<open>check_contiguity\<close> reports nothing exactly when each range meets the next, or the two sides are both
  open: an upper bound \<open>null\<close> against a lower bound \<open>null\<close> compares as equal.
\<close>

lemma check_contiguity_clean:
  assumes "\<forall>(p, r) \<in> set ps. typed_range T r" "check_contiguity ps = Inr []"
  shows "successively (\<lambda>a b. isAdjacentTo (snd a) (snd b) = Inr True \<or>
    range_end (snd a) = VNull \<and> range_start (snd b) = VNull) ps"
  using assms
proof (induction ps rule: induct_list012)
  case (3 x y rest)
  obtain cid c nid n where xy: "x = (cid, c)" "y = (nid, n)" by (cases x; cases y) blast
  have t: "typed_range T c" "typed_range T n" using "3.prems"(1) xy by auto
  have absent: "compareKeys v VNull = Inr 1" "compareKeys VNull v = Inr (-1)"
    if "has_key_type T v" for v
    using that has_key_type_present [OF that] compareRoutingKeys_typed [OF that that]
    by (auto simp: compareKeys_def compareRoutingKeys.simps [of v VNull] compareRoutingKeys.simps [of VNull v]
        compareRoutingKeys.simps [of v v] strict_eq_def compareAbsentKeys_def isAbsentKey_def
        assertPresentKeySupported_def err_simps)
  obtain rest_ok: "check_contiguity ((nid, n) # rest) = Inr []" and
    pair: "isAdjacentTo c n = Inr True \<or>
      (isAdjacentTo c n = Inr False \<and> compareKeys (range_end c) (range_start n) = Inr 0)"
    using "3.prems"(2) by (auto simp: xy err_simps split: if_splits)
  have "isAdjacentTo c n = Inr True \<or> range_end c = VNull \<and> range_start n = VNull"
    using pair absent t by (auto simp: isAdjacentTo_def typed_range_def split: if_splits)
  moreover have "successively (\<lambda>a b. isAdjacentTo (snd a) (snd b) = Inr True \<or>
      range_end (snd a) = VNull \<and> range_start (snd b) = VNull) (y # rest)"
    using "3.IH"(2) "3.prems"(1) rest_ok xy by simp
  ultimately show ?case by (simp add: xy)
qed auto

lemma compare_starts_sorts:
  assumes "typed_range T (snd x)" "typed_range T (snd y)" "compare_starts x y = Inr r"
  defines "R \<equiv> \<lambda>a b. range_start (snd a) = VNull \<or> range_start (snd b) \<noteq> VNull \<and>
    \<not> below compareRoutingKeys (range_start (snd b)) (range_start (snd a))"
  shows "if r < 0 then R x y else R y x"
proof -
  have "(r < 0 \<longrightarrow> \<not> below compareRoutingKeys b a) \<and> (\<not> r < 0 \<longrightarrow> \<not> below compareRoutingKeys a b)"
    if "has_key_type T a" "has_key_type T b" "compareKeys a b = Inr r" for a b
    using that key_order_swap [OF that(1,2)]
    by (auto simp: compareKeys_def compareRoutingKeys_typed below_typed [of T])
  with assms(1-3) show ?thesis
    by (auto simp: R_def compare_starts_def typed_range_def split: if_splits)
qed

abbreviation bounds_of :: "partition_id \<times> key_range \<Rightarrow> jsval option \<times> jsval option" where
  "bounds_of x \<equiv> (bound_of (range_start (snd x)), bound_of (range_end (snd x)))"

lemma chained_partitions:
  assumes "successively (\<lambda>a b. isAdjacentTo (snd a) (snd b) = Inr True) ps"
    and "successively (\<lambda>a b. range_start (snd a) = VNull \<or> range_start (snd b) \<noteq> VNull \<and>
      \<not> below compareRoutingKeys (range_start (snd b)) (range_start (snd a))) ps"
    and "ps \<noteq> []" "range_end (snd (last ps)) = VNull"
  shows "chained compareRoutingKeys (map bounds_of ps)"
  using assms
proof (induction ps rule: induct_list012)
  case (3 x y ps)
  then have "chained compareRoutingKeys (map bounds_of (y # ps))" by simp
  moreover have "range_end (snd x) \<noteq> VNull" "range_start (snd y) \<noteq> VNull"
    "compareRoutingKeys (range_end (snd x)) (range_start (snd y)) = Inr 0"
    using "3.prems"(1) by (auto simp: isAdjacentTo_def compareKeys_def err_simps split: if_splits)
  ultimately show ?case using "3.prems"(2) by (auto simp: bound_of_def)
qed auto

definition open_below :: "key_range_manager \<Rightarrow> nat" where
  "open_below m = length (filter (\<lambda>x. range_start (snd x) = VNull) (krm_ranges m))"

lemma validateRanges_clean:
  assumes "validateRanges m = Inr res" "valid res" "krm_ranges m \<noteq> []"
  obtains ps where "getSortedPartitions m = Inr ps" "ps \<noteq> []" "range_start (snd (hd ps)) = VNull"
    "range_end (snd (last ps)) = VNull" "check_contiguity ps = Inr []" "mset ps = mset (krm_ranges m)"
proof -
  obtain ps where ps: "getSortedPartitions m = Inr ps"
    using assms(1) by (auto simp: validateRanges_def err_simps)
  then have ms: "mset ps = mset (krm_ranges m)"
    using sort_by_mset [of compare_starts "[]" "krm_ranges m" ps] by (simp add: getSortedPartitions_def)
  with assms(3) have ne: "ps \<noteq> []" by auto
  show ?thesis
    using assms(1,2) ps ne
    by (intro that [OF ps ne _ _ _ ms]) (auto simp: validateRanges_def err_simps Let_def split: if_splits)
qed




end
