(* ===== verification/Json.thy ===== *)
theory Json
  imports RoutingKey
begin

text \<open>
  \<open>JSON.stringify\<close> and \<open>JSON.parse\<close> of the language's standard library, on the values that JSON
  carries. The transaction owners hash, compare and re-read JSON texts, so the exact characters
  matter: strings are escaped the way the standard prescribes (lone surrogates included), and the
  reader accepts the whole JSON grammar.

  The reader is a recursive descent with fuel. A nested value takes two units of fuel per character,
  and \<open>parse_fuel\<close> shows that \<open>2 * length s + 2\<close> units always suffice: more fuel never changes the
  answer. \<open>json_roundtrip\<close> shows that reading what was printed gives the value back.
\<close>

subsection \<open>Values\<close>

text \<open>
  An object is the list of its properties. Property order is the order of insertion; the code never
  enumerates the properties of a parsed object, so the separate rank of integer-like names is not
  modelled.
\<close>

datatype json =
    JNull
  | JBool bool
  | JNum xnum
  | JStr jsstring
  | JArr "json list"
  | JObj "(jsstring \<times> json) list"

text \<open>Reading a property: \<open>None\<close> is \<open>undefined\<close>. Arrays and primitives have none of the names the code reads.\<close>

fun get_prop :: "json \<Rightarrow> jsstring \<Rightarrow> json option" where
  "get_prop (JObj ps) name = map_of ps name"
| "get_prop _ name = None"

fun get_elem :: "json \<Rightarrow> nat \<Rightarrow> json option" where
  "get_elem (JArr xs) i = (if i < length xs then Some (xs ! i) else None)"
| "get_elem _ i = None"

subsection \<open>Printing\<close>

definition hex_digit :: "nat \<Rightarrow> jschar" where
  "hex_digit n = word_of_nat (if n < 10 then 48 + n else 87 + n)"

definition hex4 :: "jschar \<Rightarrow> jsstring" where
  "hex4 c = map hex_digit [unat c div 4096, unat c div 256 mod 16, unat c div 16 mod 16, unat c mod 16]"

definition unicode_escape :: "jschar \<Rightarrow> jsstring" where
  "unicode_escape c = 92 # 117 # hex4 c"

definition quote_unit :: "jschar \<Rightarrow> jsstring" where
  "quote_unit c =
     (if c = 34 then [92, 34]
      else if c = 92 then [92, 92]
      else if c = 8 then [92, 98]
      else if c = 12 then [92, 102]
      else if c = 10 then [92, 110]
      else if c = 13 then [92, 114]
      else if c = 9 then [92, 116]
      else if c < 32 then unicode_escape c
      else [c])"

fun quote_units :: "jsstring \<Rightarrow> jsstring" where
  "quote_units [] = []"
| "quote_units [c] =
     (if is_high_surrogate c \<or> is_low_surrogate c then unicode_escape c else quote_unit c)"
| "quote_units (c # d # s) =
     (if is_high_surrogate c \<and> is_low_surrogate d then c # d # quote_units s
      else if is_high_surrogate c \<or> is_low_surrogate c then unicode_escape c @ quote_units (d # s)
      else quote_unit c @ quote_units (d # s))"

definition quote :: "jsstring \<Rightarrow> jsstring" where
  "quote s = 34 # quote_units s @ [34]"

fun sep_concat :: "jsstring list \<Rightarrow> jsstring" where
  "sep_concat [] = []"
| "sep_concat [p] = p"
| "sep_concat (p # q # ps) = p @ 44 # sep_concat (q # ps)"

fun stringify :: "(xnum \<Rightarrow> jsstring) \<Rightarrow> json \<Rightarrow> jsstring" where
  "stringify ns JNull = js ''null''"
| "stringify ns (JBool b) = (if b then js ''true'' else js ''false'')"
| "stringify ns (JNum x) = (case x of Fin _ \<Rightarrow> num_to_string ns x | _ \<Rightarrow> js ''null'')"
| "stringify ns (JStr s) = quote s"
| "stringify ns (JArr xs) = 91 # sep_concat (map (stringify ns) xs) @ [93]"
| "stringify ns (JObj ps) =
     123 # sep_concat (map (\<lambda>(k, v). quote k @ 58 # stringify ns v) ps) @ [125]"

subsection \<open>Reading\<close>

definition is_json_space :: "jschar \<Rightarrow> bool" where
  "is_json_space c \<longleftrightarrow> c \<in> {9, 10, 13, 32}"

definition skip_space :: "jsstring \<Rightarrow> jsstring" where
  "skip_space s = dropWhile is_json_space s"

definition hex_value :: "jschar \<Rightarrow> nat option" where
  "hex_value c =
     (let n = unat c in
      if 48 \<le> n \<and> n \<le> 57 then Some (n - 48)
      else if 97 \<le> n \<and> n \<le> 102 then Some (n - 87)
      else if 65 \<le> n \<and> n \<le> 70 then Some (n - 55)
      else None)"

definition hex4_value :: "jschar \<Rightarrow> jschar \<Rightarrow> jschar \<Rightarrow> jschar \<Rightarrow> jschar option" where
  "hex4_value a b c d =
     (case (hex_value a, hex_value b, hex_value c, hex_value d) of
        (Some w, Some x, Some y, Some z) \<Rightarrow> Some (word_of_nat (w * 4096 + x * 256 + y * 16 + z))
      | _ \<Rightarrow> None)"

definition escaped_unit :: "jschar \<Rightarrow> jschar option" where
  "escaped_unit c =
     (if c = 34 \<or> c = 92 \<or> c = 47 then Some c
      else if c = 98 then Some 8
      else if c = 102 then Some 12
      else if c = 110 then Some 10
      else if c = 114 then Some 13
      else if c = 116 then Some 9
      else None)"

text \<open>The rest of a string literal after its opening quote.\<close>

fun parse_string :: "jsstring \<Rightarrow> (jsstring \<times> jsstring) option" where
  "parse_string [] = None"
| "parse_string (c # s) =
     (if c = 34 then Some ([], s)
      else if c = 92 then
        (case s of
           [] \<Rightarrow> None
         | e # s1 \<Rightarrow>
             if e = 117 then
               (case s1 of
                  h1 # h2 # h3 # h4 # s2 \<Rightarrow>
                    (case hex4_value h1 h2 h3 h4 of
                       None \<Rightarrow> None
                     | Some u \<Rightarrow> map_option (\<lambda>(t, r). (u # t, r)) (parse_string s2))
                | _ \<Rightarrow> None)
             else
               (case escaped_unit e of
                  None \<Rightarrow> None
                | Some u \<Rightarrow> map_option (\<lambda>(t, r). (u # t, r)) (parse_string s1)))
      else if c < 32 then None
      else map_option (\<lambda>(t, r). (c # t, r)) (parse_string s))"

text \<open>A number: sign, integer part without superfluous zeros, fraction, exponent.\<close>

definition parse_fraction :: "jsstring \<Rightarrow> (nat list \<times> jsstring) option" where
  "parse_fraction s =
     (if s \<noteq> [] \<and> hd s = 46
      then (let (ds, r) = span_digits (tl s) in if ds = [] then None else Some (ds, r))
      else Some ([], s))"

definition parse_exponent :: "jsstring \<Rightarrow> (int \<times> jsstring) option" where
  "parse_exponent s =
     (if s \<noteq> [] \<and> (hd s = 101 \<or> hd s = 69)
      then (let t = tl s;
                signed = (t \<noteq> [] \<and> (hd t = 43 \<or> hd t = 45));
                (ds, r) = span_digits (if signed then tl t else t);
                e = int (digits_value ds)
            in if ds = [] then None
               else Some (if signed \<and> hd t = 45 then - e else e, r))
      else Some (0, s))"

definition decimal_value :: "nat list \<Rightarrow> nat list \<Rightarrow> int \<Rightarrow> rat" where
  "decimal_value ds fs e =
     (let k = e - int (length fs); m = of_nat (digits_value (ds @ fs)) in
      if 0 \<le> k then m * 10 ^ nat k else m / 10 ^ nat (- k))"

definition parse_number :: "jsstring \<Rightarrow> (json \<times> jsstring) option" where
  "parse_number s =
     (let neg = (s \<noteq> [] \<and> hd s = 45);
          (ds, r) = span_digits (if neg then tl s else s)
      in if ds = [] \<or> (hd ds = 0 \<and> 1 < length ds) then None
         else
           (case parse_fraction r of
              None \<Rightarrow> None
            | Some (fs, r1) \<Rightarrow>
                (case parse_exponent r1 of
                   None \<Rightarrow> None
                 | Some (e, r2) \<Rightarrow>
                     (let x = decimal_value ds fs e
                      in Some (JNum (round_double (if neg then - x else x)), r2)))))"

definition strip_prefix :: "jsstring \<Rightarrow> jsstring \<Rightarrow> jsstring option" where
  "strip_prefix p s = (if take (length p) s = p then Some (drop (length p) s) else None)"

definition parse_literal :: "jsstring \<Rightarrow> (json \<times> jsstring) option" where
  "parse_literal s =
     (case strip_prefix (js ''null'') s of
        Some r \<Rightarrow> Some (JNull, r)
      | None \<Rightarrow>
          (case strip_prefix (js ''true'') s of
             Some r \<Rightarrow> Some (JBool True, r)
           | None \<Rightarrow>
               (case strip_prefix (js ''false'') s of
                  Some r \<Rightarrow> Some (JBool False, r)
                | None \<Rightarrow> parse_number s)))"

text \<open>A repeated property name keeps the last value.\<close>

definition make_object :: "(jsstring \<times> json) list \<Rightarrow> json" where
  "make_object ps = JObj (foldl (\<lambda>m (k, v). jm_set k v m) [] ps)"

fun parse_value :: "nat \<Rightarrow> jsstring \<Rightarrow> (json \<times> jsstring) option"
  and parse_elems :: "nat \<Rightarrow> jsstring \<Rightarrow> (json list \<times> jsstring) option"
  and parse_members :: "nat \<Rightarrow> jsstring \<Rightarrow> ((jsstring \<times> json) list \<times> jsstring) option"
where
  "parse_value 0 s = None"
| "parse_value (Suc n) s =
     (case skip_space s of
        [] \<Rightarrow> None
      | c # r \<Rightarrow>
          if c = 34 then map_option (\<lambda>(t, r'). (JStr t, r')) (parse_string r)
          else if c = 91 then
            (if skip_space r \<noteq> [] \<and> hd (skip_space r) = 93 then Some (JArr [], tl (skip_space r))
             else map_option (\<lambda>(xs, r'). (JArr xs, r')) (parse_elems n r))
          else if c = 123 then
            (if skip_space r \<noteq> [] \<and> hd (skip_space r) = 125 then Some (JObj [], tl (skip_space r))
             else map_option (\<lambda>(ps, r'). (make_object ps, r')) (parse_members n r))
          else parse_literal (c # r))"
| "parse_elems 0 s = None"
| "parse_elems (Suc n) s =
     (case parse_value n s of
        None \<Rightarrow> None
      | Some (v, r) \<Rightarrow>
          (case skip_space r of
             [] \<Rightarrow> None
           | c # r' \<Rightarrow>
               if c = 44 then map_option (\<lambda>(xs, r''). (v # xs, r'')) (parse_elems n r')
               else if c = 93 then Some ([v], r')
               else None))"
| "parse_members 0 s = None"
| "parse_members (Suc n) s =
     (case skip_space s of
        [] \<Rightarrow> None
      | c # r \<Rightarrow>
          if c \<noteq> 34 then None
          else
            (case parse_string r of
               None \<Rightarrow> None
             | Some (k, r1) \<Rightarrow>
                 (case skip_space r1 of
                    [] \<Rightarrow> None
                  | c1 # r2 \<Rightarrow>
                      if c1 \<noteq> 58 then None
                      else
                        (case parse_value n r2 of
                           None \<Rightarrow> None
                         | Some (v, r3) \<Rightarrow>
                             (case skip_space r3 of
                                [] \<Rightarrow> None
                              | c2 # r4 \<Rightarrow>
                                  if c2 = 44
                                  then map_option (\<lambda>(ps, r5). ((k, v) # ps, r5)) (parse_members n r4)
                                  else if c2 = 125 then Some ([(k, v)], r4)
                                  else None)))))"

declare parse_value.simps [simp del] parse_elems.simps [simp del] parse_members.simps [simp del]

definition json_parse_with :: "nat \<Rightarrow> jsstring \<Rightarrow> json option" where
  "json_parse_with fuel s =
     (case parse_value fuel s of
        None \<Rightarrow> None
      | Some (v, r) \<Rightarrow> if skip_space r = [] then Some v else None)"

definition json_parse :: "jsstring \<Rightarrow> json option" where
  "json_parse s = json_parse_with (2 * length s + 2) s"

subsection \<open>The reader consumes input, and its fuel suffices\<close>

lemma skip_space_length: "length (skip_space s) \<le> length s"
  by (simp add: skip_space_def length_dropWhile_le)

lemma skip_space_Cons: "skip_space s = c # r \<Longrightarrow> length r < length s"
  using skip_space_length [of s] by simp

lemma parse_string_shorter: "parse_string s = Some (t, r) \<Longrightarrow> length r < length s"
proof (induction s arbitrary: t r rule: parse_string.induct)
  case (2 c s)
  show ?case
  proof (cases "c = 92")
    case False
    with 2 show ?thesis by (fastforce split: if_splits)
  next
    case True
    with "2.prems" obtain e s1 where s: "s = e # s1" by (auto split: list.splits)
    show ?thesis
    proof (cases "e = 117")
      case False
      with 2 True s show ?thesis by (fastforce split: option.splits)
    next
      case e: True
      with "2.prems" True s obtain h1 h2 h3 h4 s2 u where
        "s1 = h1 # h2 # h3 # h4 # s2" "hex4_value h1 h2 h3 h4 = Some u"
        by (auto split: list.splits option.splits)
      with 2 True s e show ?thesis by fastforce
    qed
  qed
qed simp

lemma span_digits_length: "length (fst (span_digits s)) + length (snd (span_digits s)) = length s"
  by (induction s) (auto split: option.splits prod.splits)

lemma parse_fraction_length: "parse_fraction s = Some (fs, r) \<Longrightarrow> length r \<le> length s"
  using span_digits_length [of "tl s"]
  by (cases s) (auto simp: parse_fraction_def split: if_splits prod.splits)

lemma parse_exponent_length: "parse_exponent s = Some (e, r) \<Longrightarrow> length r \<le> length s"
  using span_digits_length [of "tl s"] span_digits_length [of "tl (tl s)"]
  by (cases s; cases "tl s") (auto simp: parse_exponent_def Let_def split: if_splits prod.splits)

lemma parse_number_shorter:
  assumes "parse_number s = Some (v, r)"
  shows "length r < length s"
proof -
  let ?t = "if s \<noteq> [] \<and> hd s = 45 then tl s else s"
  obtain ds r0 where d: "span_digits ?t = (ds, r0)" by (cases "span_digits ?t")
  have "length ds + length r0 \<le> length s"
    using span_digits_length [of ?t] d by (cases s) (auto split: if_splits)
  moreover obtain fs r1 e where "parse_fraction r0 = Some (fs, r1)" "parse_exponent r1 = Some (e, r)" "ds \<noteq> []"
    using assms d by (auto simp: parse_number_def Let_def split: if_splits option.splits)
  ultimately show ?thesis
    using parse_fraction_length [of r0 fs r1] parse_exponent_length [of r1 e r] by (cases ds) auto
qed

lemma strip_prefix_length: "strip_prefix p s = Some r \<Longrightarrow> p \<noteq> [] \<Longrightarrow> length r < length s"
  by (cases s) (auto simp: strip_prefix_def split: if_splits)

lemma parse_literal_shorter: "parse_literal s = Some (v, r) \<Longrightarrow> length r < length s"
  using strip_prefix_length [of "js ''null''" s] strip_prefix_length [of "js ''true''" s]
    strip_prefix_length [of "js ''false''" s] parse_number_shorter [of s]
  by (auto simp: parse_literal_def split: option.splits)

lemma parse_shorter:
  "parse_value n s = Some (v, r) \<Longrightarrow> length r < length s"
  "parse_elems n s = Some (xs, r) \<Longrightarrow> length r < length s"
  "parse_members n s = Some (ps, r) \<Longrightarrow> length r < length s"
proof (induction n s and n s and n s arbitrary: v r and xs r and ps r
    rule: parse_value_parse_elems_parse_members.induct)
  case (2 n s)
  then obtain c t where t: "skip_space s = c # t"
    by (auto simp: parse_value.simps split: list.splits)
  note len = skip_space_Cons [OF t] and lit = parse_literal_shorter [of "c # t" v r]
    and sp = skip_space_length [of t] and str = parse_string_shorter [of t]
  have tls: "length (tl (skip_space t)) \<le> length t" using sp by simp
  have cl: "Suc (length t) \<le> length s" using len by simp
  show ?case
    using 2 t len lit sp str tls cl
    by (auto simp: parse_value.simps split: if_splits) fastforce+
next
  case (4 n s)
  then obtain w q where w: "parse_value n s = Some (w, q)"
    by (auto simp: parse_elems.simps split: option.splits)
  then obtain c t where t: "skip_space q = c # t"
    using "4.prems" by (auto simp: parse_elems.simps split: list.splits)
  have "length q < length s" "length t < length q" using "4.IH"(1) [OF w] skip_space_Cons [OF t] by auto
  then show ?case
    using "4.prems" w t "4.IH"(2) [OF w refl t] by (fastforce simp: parse_elems.simps split: if_splits)
next
  case (6 n s)
  then obtain c t where t: "skip_space s = c # t"
    by (auto simp: parse_members.simps split: list.splits)
  then obtain k r1 where k: "c = 34" "parse_string t = Some (k, r1)"
    using "6.prems" by (auto simp: parse_members.simps split: if_splits option.splits)
  then obtain r2 where r2: "skip_space r1 = 58 # r2"
    using "6.prems" t by (auto simp: parse_members.simps split: list.splits if_splits)
  then obtain w r3 where w: "parse_value n r2 = Some (w, r3)"
    using "6.prems" t k by (auto simp: parse_members.simps split: option.splits)
  then obtain c2 r4 where r4: "skip_space r3 = c2 # r4"
    using "6.prems" t k r2 by (auto simp: parse_members.simps split: list.splits)
  have "length r4 < length s"
    using skip_space_Cons [OF t] parse_string_shorter [OF k(2)] skip_space_Cons [OF r2]
      "6.IH"(1) [OF t _ k(2) refl r2 _ w] k(1) skip_space_Cons [OF r4] by simp
  then show ?case
    using "6.prems" t k r2 w r4 "6.IH"(2) [OF t _ k(2) refl r2 _ w refl r4]
    by (fastforce simp: parse_members.simps split: if_splits)
qed (simp_all add: parse_value.simps parse_elems.simps parse_members.simps)

text \<open>One more unit of fuel changes nothing once there are two per character.\<close>

lemma parse_fuel_step:
  "(2 * length s < n \<longrightarrow> parse_value (Suc n) s = parse_value n s)
   \<and> (2 * length s + 1 < n \<longrightarrow> parse_elems (Suc n) s = parse_elems n s)
   \<and> (2 * length s + 1 < n \<longrightarrow> parse_members (Suc n) s = parse_members n s)"
proof (induction n arbitrary: s)
  case (Suc m)
  have v: "parse_value (Suc m) t = parse_value m t" if "2 * length t < m" for t using Suc that by blast
  have e: "parse_elems (Suc m) t = parse_elems m t" if "2 * length t + 1 < m" for t using Suc that by blast
  have p: "parse_members (Suc m) t = parse_members m t" if "2 * length t + 1 < m" for t using Suc that by blast
  have "parse_value (Suc (Suc m)) s = parse_value (Suc m) s" if "2 * length s < Suc m"
  proof (cases "skip_space s")
    case (Cons c r)
    then have "2 * length r + 1 < m" using skip_space_Cons [OF Cons] that by simp
    from e [OF this] p [OF this] Cons show ?thesis
      unfolding parse_value.simps(2) [of "Suc m" s] parse_value.simps(2) [of m s] by simp
  qed (simp add: parse_value.simps)
  moreover have "parse_elems (Suc (Suc m)) s = parse_elems (Suc m) s" if l: "2 * length s + 1 < Suc m"
  proof -
    have vs: "parse_value (Suc m) s = parse_value m s" using l by (intro v) simp
    have "parse_elems (Suc m) r' = parse_elems m r'"
      if "parse_value m s = Some (w, r)" "skip_space r = c # r'" for w r c r'
      using parse_shorter(1) [OF that(1)] skip_space_Cons [OF that(2)] l by (intro e) simp
    then show ?thesis
      unfolding parse_elems.simps(2) [of "Suc m" s] parse_elems.simps(2) [of m s] vs
      by (auto split: option.splits list.splits)
  qed
  moreover have "parse_members (Suc (Suc m)) s = parse_members (Suc m) s" if l: "2 * length s + 1 < Suc m"
  proof -
    have v2: "parse_value (Suc m) r2 = parse_value m r2"
      if "skip_space s = c # r" "parse_string r = Some (k, r1)" "skip_space r1 = c1 # r2" for c r k r1 c1 r2
      using skip_space_Cons [OF that(1)] parse_string_shorter [OF that(2)] skip_space_Cons [OF that(3)] l
      by (intro v) simp
    have p2: "parse_members (Suc m) r4 = parse_members m r4"
      if "skip_space s = c # r" "parse_string r = Some (k, r1)" "skip_space r1 = c1 # r2"
        "parse_value m r2 = Some (w, r3)" "skip_space r3 = c2 # r4" for c r k r1 c1 r2 w r3 c2 r4
      using skip_space_Cons [OF that(1)] parse_string_shorter [OF that(2)] skip_space_Cons [OF that(3)]
        parse_shorter(1) [OF that(4)] skip_space_Cons [OF that(5)] l by (intro p) simp
    show ?thesis
      unfolding parse_members.simps(2) [of "Suc m" s] parse_members.simps(2) [of m s]
      by (auto simp: v2 p2 split: option.splits list.splits)
  qed
  ultimately show ?case by blast
qed simp

lemma parse_value_fuel: "2 * length s < n \<Longrightarrow> n \<le> m \<Longrightarrow> parse_value m s = parse_value n s"
proof (induction m)
  case (Suc m)
  then show ?case using parse_fuel_step [of s m] by (cases "n = Suc m") auto
qed simp

lemma json_parse_fuel: "2 * length s < fuel \<Longrightarrow> json_parse_with fuel s = json_parse s"
  using parse_value_fuel [of s fuel "max fuel (2 * length s + 2)"]
    parse_value_fuel [of s "2 * length s + 2" "max fuel (2 * length s + 2)"]
  by (simp add: json_parse_def json_parse_with_def)

subsection \<open>Reading what was printed\<close>

lemma hex_value_digit: "n < 16 \<Longrightarrow> hex_value (hex_digit n) = Some n"
  by (auto simp: hex_value_def hex_digit_def unat_of_nat Let_def)

lemma hex4_value_hex4: "hex4 c = [h1, h2, h3, h4] \<Longrightarrow> hex4_value h1 h2 h3 h4 = Some c"
proof -
  assume h: "hex4 c = [h1, h2, h3, h4]"
  let ?n = "unat c"
  have "?n < 65536" using unsigned_less [of c, where ?'a = nat] by simp
  then have "?n div 4096 < 16" by simp
  then have "hex_value h1 = Some (?n div 4096)" "hex_value h2 = Some (?n div 256 mod 16)"
    "hex_value h3 = Some (?n div 16 mod 16)" "hex_value h4 = Some (?n mod 16)"
    using h by (auto simp: hex4_def hex_value_digit)
  moreover have "?n div 4096 * 4096 + ?n div 256 mod 16 * 256 + ?n div 16 mod 16 * 16 + ?n mod 16 = ?n"
  proof -
    have d: "?n div 256 = ?n div 16 div 16" "?n div 4096 = ?n div 16 div 16 div 16"
      by (simp_all add: div_mult2_eq [symmetric])
    show ?thesis
      unfolding d using div_mult_mod_eq [of ?n 16] div_mult_mod_eq [of "?n div 16" 16]
        div_mult_mod_eq [of "?n div 16 div 16" 16] by linarith
  qed
  ultimately show ?thesis by (simp only: hex4_value_def) simp
qed

lemma parse_unicode_escape:
  "parse_string (unicode_escape c @ s) = map_option (\<lambda>(t, r). (c # t, r)) (parse_string s)"
proof -
  obtain h1 h2 h3 h4 where h: "hex4 c = [h1, h2, h3, h4]" by (simp add: hex4_def)
  then show ?thesis by (simp add: unicode_escape_def hex4_value_hex4 [OF h])
qed

lemma parse_quote_unit:
  "\<not> is_high_surrogate c \<Longrightarrow> \<not> is_low_surrogate c \<Longrightarrow>
   parse_string (quote_unit c @ s) = map_option (\<lambda>(t, r). (c # t, r)) (parse_string s)"
  by (auto simp: quote_unit_def escaped_unit_def parse_unicode_escape)

lemma surrogate_plain:
  "is_high_surrogate c \<or> is_low_surrogate c \<Longrightarrow> c \<noteq> 34 \<and> c \<noteq> 92 \<and> \<not> c < 32"
  by (auto simp: is_high_surrogate_def is_low_surrogate_def word_le_nat_alt word_less_nat_alt)

lemma parse_quoted: "parse_string (quote_units s @ 34 # r) = Some (s, r)"
proof (induction s rule: quote_units.induct)
  case (3 c d s)
  then show ?case
    using surrogate_plain [of c] surrogate_plain [of d]
    by (auto simp: parse_unicode_escape parse_quote_unit)
qed (auto simp: parse_unicode_escape parse_quote_unit)

text \<open>The values that a JSON text reproduces: numbers are safe integers, property names are distinct.\<close>

fun plain :: "json \<Rightarrow> bool" where
  "plain JNull = True"
| "plain (JBool _) = True"
| "plain (JNum x) = (case x of Fin q \<Rightarrow> is_safe_int q | _ \<Rightarrow> False)"
| "plain (JStr _) = True"
| "plain (JArr xs) = (\<forall>x \<in> set xs. plain x)"
| "plain (JObj ps) = (jm_wf ps \<and> (\<forall>(k, v) \<in> set ps. plain v))"

lemma digits_of_hd: "1 < length (digits_of n) \<Longrightarrow> hd (digits_of n) \<noteq> 0"
proof (induction n rule: digits_of.induct)
  case (1 n)
  show ?case
  proof (cases "n < 10")
    case True
    with "1.prems" show ?thesis by (simp add: digits_of.simps [of n])
  next
    case False
    have eq: "digits_of n = digits_of (n div 10) @ [n mod 10]"
      using False by (simp add: digits_of.simps [of n])
    show ?thesis
    proof (cases "n div 10 < 10")
      case True
      then have "digits_of (n div 10) = [n div 10]" by (simp add: digits_of.simps [of "n div 10"])
      with False eq show ?thesis by simp
    next
      case big: False
      then have "digits_of (n div 10) = digits_of (n div 10 div 10) @ [n div 10 mod 10]"
        by (simp add: digits_of.simps [of "n div 10"])
      moreover have "0 < length (digits_of (n div 10 div 10))" using digits_of_not_Nil by blast
      ultimately have "1 < length (digits_of (n div 10))" by simp
      with "1.IH" False have "hd (digits_of (n div 10)) \<noteq> 0" by simp
      with eq show ?thesis by simp
    qed
  qed
qed

text \<open>What may follow a value inside a JSON text, or nothing.\<close>

definition closes :: "jsstring \<Rightarrow> bool" where
  "closes r \<longleftrightarrow> r = [] \<or> hd r = 44 \<or> hd r = 93 \<or> hd r = 125"

lemma closes_simps [simp]: "closes []" "closes (44 # r)" "closes (93 # r)" "closes (125 # r)"
  by (simp_all add: closes_def)

lemma closes_number:
  "closes r \<Longrightarrow> r = [] \<or> char_digit (hd r) = None" "closes r \<Longrightarrow> parse_fraction r = Some ([], r)"
  "closes r \<Longrightarrow> parse_exponent r = Some (0, r)"
  by (auto simp: closes_def char_digit_def parse_fraction_def parse_exponent_def)

lemma show_nat_hd: "\<exists>d. hd (show_nat n) = digit_char d \<and> d < 10"
  using digits_of_small [of _ n] by (cases "digits_of n") (auto simp: show_nat_def)

lemma digit_char_ne:
  "d < 10 \<Longrightarrow> digit_char d \<notin> {9, 10, 13, 32, 34, 44, 45, 91, 93, 123, 125, 110, 116, 102}"
proof -
  assume "d < 10"
  then have "unat (digit_char d) = 48 + d" unfolding digit_char_def unat_of_nat by simp
  with \<open>d < 10\<close> show ?thesis by (auto dest!: arg_cong [where f = unat])
qed

lemma parse_number_show_nat:
  assumes "closes r" "int n \<le> 2 ^ 53"
  shows "parse_number (show_nat n @ r) = Some (JNum (Fin (of_nat n)), r)"
    and "parse_number (45 # show_nat n @ r) = Some (JNum (Fin (- of_nat n)), r)"
proof -
  have sp: "span_digits (show_nat n @ r) = (digits_of n, r)"
    using closes_number(1) [OF assms(1)] by (rule span_digits_show_nat)
  have hd: "hd (show_nat n @ r) \<noteq> 45"
    using show_nat_hd [of n] digit_char_ne by (cases "show_nat n") auto
  have lz: "\<not> (hd (digits_of n) = 0 \<and> 1 < length (digits_of n))" using digits_of_hd [of n] by blast
  have v: "decimal_value (digits_of n) [] 0 = of_int (int n)"
    by (simp add: decimal_value_def digits_value_of)
  have "\<bar>int n\<bar> \<le> 2 ^ 53" "\<bar>- int n\<bar> \<le> 2 ^ 53" using assms(2) by simp_all
  from round_double_int_exact [OF this(1)] round_double_int_exact [OF this(2)]
  have rd: "round_double (of_int (int n)) = Fin (of_int (int n))"
    "round_double (- of_int (int n)) = Fin (- of_int (int n))" by simp_all
  show "parse_number (show_nat n @ r) = Some (JNum (Fin (of_nat n)), r)"
    using hd lz rd by (simp add: parse_number_def sp closes_number [OF assms(1)] v)
  show "parse_number (45 # show_nat n @ r) = Some (JNum (Fin (- of_nat n)), r)"
    using lz rd by (simp add: parse_number_def sp closes_number [OF assms(1)] v)
qed

lemma strip_prefix_hd: "s \<noteq> [] \<Longrightarrow> p \<noteq> [] \<Longrightarrow> hd s \<noteq> hd p \<Longrightarrow> strip_prefix p s = None"
  by (cases s; cases p) (auto simp: strip_prefix_def)

lemma parse_literal_number:
  assumes "s \<noteq> []" "hd s \<notin> {110, 116, 102}"
  shows "parse_literal s = parse_number s"
  using assms by (simp add: parse_literal_def strip_prefix_hd)

lemma safe_int_cases:
  assumes "is_safe_int q"
  obtains n where "q = of_nat n" "int n \<le> 2 ^ 53" "num_to_string ns (Fin q) = show_nat n"
    | n where "q = - of_nat n" "int n \<le> 2 ^ 53" "num_to_string ns (Fin q) = 45 # show_nat n"
proof -
  define i where "i = \<lfloor>q\<rfloor>"
  have q: "q = of_int i" and b: "\<bar>i\<bar> \<le> 2 ^ 53"
    using assms by (simp_all add: is_safe_int_def i_def max_safe_def)
  have s: "num_to_string ns (Fin q) = show_int i" using assms by (simp add: num_to_string_def i_def)
  show ?thesis
  proof (cases "i < 0")
    case True
    then have "q = - of_nat (nat (- i))" by (simp add: q)
    moreover have "int (nat (- i)) \<le> 2 ^ 53" using b True by simp
    ultimately show ?thesis using True s that(2) [of "nat (- i)"] by (simp add: show_int_def)
  next
    case False
    then have "q = of_nat (nat i)" by (simp add: q)
    moreover have "int (nat i) \<le> 2 ^ 53" using b False by simp
    ultimately show ?thesis using False s that(1) [of "nat i"] by (simp add: show_int_def)
  qed
qed

lemma stringify_hd:
  "plain v \<Longrightarrow> stringify ns v \<noteq> [] \<and> hd (stringify ns v) \<notin> {9, 10, 13, 32, 44, 93, 125}"
proof (cases v)
  case (JNum x)
  assume "plain v"
  with JNum obtain q where q: "x = Fin q" "is_safe_int q" by (cases x) auto
  show ?thesis
  proof (rule safe_int_cases [OF q(2), of ns])
    fix n assume n: "num_to_string ns (Fin q) = show_nat n"
    obtain d where "hd (show_nat n) = digit_char d" "d < 10" using show_nat_hd by blast
    with n digit_char_ne [of d] show ?thesis by (simp add: JNum q)
  qed (simp add: JNum q)
qed (auto simp: quote_def)

lemma skip_space_hd: "s \<noteq> [] \<Longrightarrow> hd s \<notin> {9, 10, 13, 32} \<Longrightarrow> skip_space s = s"
  by (cases s) (auto simp: skip_space_def is_json_space_def)

lemma skip_space_printed:
  "plain v \<Longrightarrow> skip_space (stringify ns v @ r) = stringify ns v @ r"
  using stringify_hd [of v ns] by (intro skip_space_hd) auto

lemma closes_skip_space: "closes r \<Longrightarrow> skip_space r = r"
  by (cases r) (auto simp: closes_def skip_space_def is_json_space_def)

text \<open>\<open>reads ns v\<close>: with enough fuel the reader gets \<open>v\<close> back from its text, whatever follows.\<close>

definition reads :: "(xnum \<Rightarrow> jsstring) \<Rightarrow> json \<Rightarrow> bool" where
  "reads ns v \<longleftrightarrow> (\<forall>n r. closes r \<and> 2 * length (stringify ns v) < n \<longrightarrow>
     parse_value n (stringify ns v @ r) = Some (v, r))"

lemma reads_leaf:
  "(\<And>m r. closes r \<Longrightarrow> parse_value (Suc m) (stringify ns v @ r) = Some (v, r)) \<Longrightarrow> reads ns v"
  unfolding reads_def by (metis not_less_zero old.nat.exhaust)

lemma parse_elems_printed:
  assumes "xs \<noteq> []" "\<forall>x \<in> set xs. reads ns x \<and> plain x"
    and "2 * length (sep_concat (map (stringify ns) xs)) + 1 < n"
  shows "parse_elems n (sep_concat (map (stringify ns) xs) @ 93 # r) = Some (xs, r)"
  using assms
proof (induction xs arbitrary: n rule: induct_list012)
  case (2 x)
  obtain m where n: "n = Suc m" using "2.prems" by (cases n) auto
  with 2 show ?case by (simp add: parse_elems.simps reads_def closes_skip_space)
next
  case (3 x y zs)
  obtain m where n: "n = Suc m" using "3.prems" by (cases n) auto
  have "parse_value m (stringify ns x @ 44 # sep_concat (map (stringify ns) (y # zs)) @ 93 # r) =
      Some (x, 44 # sep_concat (map (stringify ns) (y # zs)) @ 93 # r)"
    using "3.prems" n by (simp add: reads_def)
  moreover have "parse_elems m (sep_concat (map (stringify ns) (y # zs)) @ 93 # r) = Some (y # zs, r)"
    using "3.prems" n by (intro "3.IH") auto
  ultimately show ?case by (simp add: n parse_elems.simps closes_skip_space)
qed simp

lemma parse_members_printed:
  assumes "ps \<noteq> []" "\<forall>(k, v) \<in> set ps. reads ns v \<and> plain v"
    and "2 * length (sep_concat (map (\<lambda>(k, v). quote k @ 58 # stringify ns v) ps)) + 1 < n"
  shows "parse_members n (sep_concat (map (\<lambda>(k, v). quote k @ 58 # stringify ns v) ps) @ 125 # r) = Some (ps, r)"
  using assms
proof (induction ps arbitrary: n rule: induct_list012)
  case (2 p)
  obtain m k v where n: "n = Suc m" "p = (k, v)" using "2.prems" by (cases n; cases p) auto
  have "parse_value m (stringify ns v @ 125 # r) = Some (v, 125 # r)"
    using "2.prems" n by (simp add: reads_def)
  then show ?case
    by (simp add: n parse_members.simps quote_def skip_space_hd parse_quoted closes_skip_space)
next
  case (3 p q zs)
  obtain m k v where n: "n = Suc m" "p = (k, v)" using "3.prems" by (cases n; cases p) auto
  let ?rest = "sep_concat (map (\<lambda>(k, v). quote k @ 58 # stringify ns v) (q # zs)) @ 125 # r"
  have "parse_value m (stringify ns v @ 44 # ?rest) = Some (v, 44 # ?rest)"
    using "3.prems" n by (simp add: reads_def)
  moreover have "parse_members m ?rest = Some (q # zs, r)"
    using "3.prems" n by (intro "3.IH") auto
  ultimately show ?case
    by (simp add: n parse_members.simps quote_def skip_space_hd parse_quoted closes_skip_space)
qed simp

lemma make_object_distinct: "jm_wf ps \<Longrightarrow> make_object ps = JObj ps"
proof -
  assume "jm_wf ps"
  have "foldl (\<lambda>m (k, v). jm_set k v m) acc ps = acc @ ps" if "jm_wf (acc @ ps)" for acc
    using that
  proof (induction ps arbitrary: acc)
    case (Cons p ps)
    obtain k v where p: "p = (k, v)" by (cases p)
    have "k \<notin> fst ` set acc" using Cons.prems p by (auto simp: jm_wf_def image_iff)
    then have "jm_set k v acc = acc @ [(k, v)]" by (rule jm_set_absent)
    with Cons p show ?case by simp
  qed simp
  from this [of "[]"] \<open>jm_wf ps\<close> show ?thesis by (simp add: make_object_def)
qed

lemma sep_concat_hd:
  assumes "x \<noteq> []"
  shows "hd (sep_concat (x # xs) @ r) = hd x" "sep_concat (x # xs) \<noteq> []"
  using assms by (cases xs; simp)+

lemma plain_reads: "plain v \<Longrightarrow> reads ns v"
proof (induction v)
  case (JNum x)
  then obtain q where q: "x = Fin q" "is_safe_int q" by (cases x) auto
  have "parse_value n (stringify ns (JNum x) @ r) = Some (JNum x, r)" if cl: "closes r" "0 < n" for n r
  proof -
    obtain m where m: "n = Suc m" using cl(2) by (cases n) auto
    obtain c t where ct: "stringify ns (JNum x) = c # t" "c \<notin> {34, 91, 123, 110, 116, 102}" "c \<notin> {9, 10, 13, 32}"
      "parse_number (c # t @ r) = Some (JNum x, r)"
    proof (rule safe_int_cases [OF q(2), of ns])
      fix k assume k: "q = of_nat k" "int k \<le> 2 ^ 53" "num_to_string ns (Fin q) = show_nat k"
      obtain d where d: "hd (show_nat k) = digit_char d" "d < 10" using show_nat_hd by blast
      then obtain t where t: "show_nat k = digit_char d # t" by (cases "show_nat k") auto
      show ?thesis
        using k parse_number_show_nat(1) [OF cl(1) k(2)] digit_char_ne [OF d(2)]
        by (intro that [of "digit_char d" t]) (auto simp: q t)
    next
      fix k assume k: "q = - of_nat k" "int k \<le> 2 ^ 53" "num_to_string ns (Fin q) = 45 # show_nat k"
      then show ?thesis
        using parse_number_show_nat(2) [OF cl(1) k(2)] by (intro that [of 45 "show_nat k"]) (auto simp: q)
    qed
    then show ?thesis by (simp add: m parse_value.simps skip_space_hd parse_literal_number)
  qed
  then show ?case by (auto simp: reads_def)
next
  case (JArr xs)
  then have ok: "\<forall>x \<in> set xs. reads ns x \<and> plain x" by auto
  show ?case
    unfolding reads_def
  proof (intro allI impI, elim conjE)
    fix n r assume r: "closes r" "2 * length (stringify ns (JArr xs)) < n"
    then obtain m where m: "n = Suc m" by (cases n) auto
    show "parse_value n (stringify ns (JArr xs) @ r) = Some (JArr xs, r)"
    proof (cases xs)
      case Nil
      then show ?thesis by (simp add: m parse_value.simps skip_space_hd)
    next
      case (Cons x ys)
      let ?t = "sep_concat (map (stringify ns) xs) @ 93 # r"
      have x: "stringify ns x \<noteq> []" "hd (stringify ns x) \<notin> {9, 10, 13, 32, 44, 93, 125}"
        using stringify_hd [of x ns] ok Cons by auto
      have hd: "?t \<noteq> []" "hd ?t = hd (stringify ns x)" using sep_concat_hd(1) [OF x(1)] Cons by auto
      have "parse_elems m ?t = Some (xs, r)"
        using r(2) m Cons ok by (intro parse_elems_printed) auto
      moreover have "skip_space ?t = ?t" using hd x by (intro skip_space_hd) auto
      ultimately show ?thesis using hd x by (simp add: m parse_value.simps skip_space_hd)
    qed
  qed
next
  case (JObj ps)
  then have ok: "\<forall>(k, v) \<in> set ps. reads ns v \<and> plain v" by fastforce
  show ?case
    unfolding reads_def
  proof (intro allI impI, elim conjE)
    fix n r assume r: "closes r" "2 * length (stringify ns (JObj ps)) < n"
    then obtain m where m: "n = Suc m" by (cases n) auto
    show "parse_value n (stringify ns (JObj ps) @ r) = Some (JObj ps, r)"
    proof (cases ps)
      case Nil
      then show ?thesis by (simp add: m parse_value.simps skip_space_hd)
    next
      case (Cons p qs)
      obtain k v where p: "p = (k, v)" by (cases p)
      let ?t = "sep_concat (map (\<lambda>(k, v). quote k @ 58 # stringify ns v) ps) @ 125 # r"
      have hd: "?t \<noteq> []" "hd ?t = 34"
        using sep_concat_hd(1) [of "quote k @ 58 # stringify ns v"] Cons p by (auto simp: quote_def)
      have "parse_members m ?t = Some (ps, r)"
        using r(2) m Cons ok by (intro parse_members_printed) auto
      moreover have "skip_space ?t = ?t" using hd by (intro skip_space_hd) auto
      moreover have "make_object ps = JObj ps" using JObj.prems by (intro make_object_distinct) simp
      ultimately show ?thesis using hd by (simp add: m parse_value.simps skip_space_hd)
    qed
  qed
qed (rule reads_leaf, simp add: parse_value.simps skip_space_hd quote_def parse_quoted
    parse_literal_def strip_prefix_def)+

lemma json_roundtrip:
  assumes "plain v"
  shows "json_parse (stringify ns v) = Some v"
proof -
  have "parse_value (2 * length (stringify ns v) + 2) (stringify ns v @ []) = Some (v, [])"
    by (rule plain_reads [OF assms, unfolded reads_def, rule_format]) simp
  then show ?thesis
    unfolding json_parse_def json_parse_with_def by (simp only: append_Nil2 option.case prod.case)
      (simp add: skip_space_def)
qed

lemma stringify_inject:
  assumes "plain v" "plain w" "stringify ns v = stringify ns w"
  shows "v = w"
proof -
  have "Some v = json_parse (stringify ns w)" using json_roundtrip [OF assms(1), of ns] by (simp only: assms(3))
  then show ?thesis by (simp only: json_roundtrip [OF assms(2)] option.inject)
qed

end
