(* ===== verification/CdcPolicy.thy ===== *)
theory CdcPolicy
  imports Prelude
begin

text \<open>
  The CDC policy of tables: \<open>src/src/cache/cdc-table-policy.js\<close> over the table names of
  \<open>src/src/constants/tables.js\<close>. Every system table has one frozen policy; every other table is a user
  table without CDC. The obligation ledger asks \<open>isTableCdcObligationRecorded\<close> whether a committed
  write owes an event.
\<close>

definition TABLES :: "jsstring list" where
  "TABLES = map js
     [''nodes'', ''partitions'', ''services'', ''message_groups'', ''replica_operations'',
      ''indices'', ''logs'', ''config'', ''live_queries'', ''contexts'', ''code'',
      ''control_plane_publications'', ''tables'', ''schema_migrations'',
      ''schema_migration_partitions'', ''node_endpoints'', ''service_definitions'',
      ''service_instances'', ''service_bindings'', ''service_endpoints'', ''service_timers'',
      ''service_packages'', ''service_revisions'', ''service_installations'',
      ''service_install_failures'', ''module_manifests'', ''package_registry_mappings'',
      ''package_registry_overrides'', ''module_dependency_locks'', ''wasm_operations'',
      ''sql_transactions'', ''sql_transaction_participants'', ''sql_write_operations'',
      ''schema_operations'', ''debug_sessions'', ''debug_breakpoints'', ''debug_snapshots'',
      ''storage_reservations'', ''latency_groups'', ''inter_group_latencies'',
      ''service_partition_access'', ''call_cell_reduce_slots'', ''call_cell_reduce_results'',
      ''call_activation_leases'', ''artifact_payloads'', ''artifact_payload_chunks'']"

datatype policy_class = CONTROL_INTERNAL_PROPAGATION | CONTROL_NO_INTERNAL_PROPAGATION | USER_NO_CDC

datatype authority_class = CONTROL | USER

datatype hydration_mode = BOOTSTRAP_ONLY | NO_HYDRATION

record table_policy =
  tableName :: "jsstring option"
  policyClass :: policy_class
  authorityClass :: authority_class
  internalCachePropagation :: bool
  readinessRelevant :: bool
  bootstrapHydrationMode :: hydration_mode
  externalCdcAllowed :: bool
  degradedByOperationIds :: "jsstring list"

text \<open>
  The second argument of \<open>createTablePolicy\<close> is spread over the first: a \<open>tableName\<close> it carries wins.
  \<open>degradedByOperationIds\<close> is \<open>None\<close> where the object has none.
\<close>

record policy_fields =
  f_tableName :: "jsstring option option"
  f_policyClass :: policy_class
  f_authorityClass :: authority_class
  f_internalCachePropagation :: bool
  f_readinessRelevant :: bool
  f_bootstrapHydrationMode :: hydration_mode
  f_externalCdcAllowed :: bool
  f_degradedByOperationIds :: "jsstring list option"

definition createTablePolicy :: "jsstring option \<Rightarrow> policy_fields \<Rightarrow> table_policy" where
  "createTablePolicy name f =
     \<lparr>tableName = (case f_tableName f of None \<Rightarrow> name | Some t \<Rightarrow> t),
      policyClass = f_policyClass f, authorityClass = f_authorityClass f,
      internalCachePropagation = f_internalCachePropagation f,
      readinessRelevant = f_readinessRelevant f,
      bootstrapHydrationMode = f_bootstrapHydrationMode f,
      externalCdcAllowed = f_externalCdcAllowed f,
      degradedByOperationIds = (case f_degradedByOperationIds f of None \<Rightarrow> [] | Some ids \<Rightarrow> ids)\<rparr>"

text \<open>A frozen policy used as the object that is spread: it carries every field, its own name included.\<close>

definition fields_of_policy :: "table_policy \<Rightarrow> policy_fields" where
  "fields_of_policy p =
     \<lparr>f_tableName = Some (tableName p), f_policyClass = policyClass p,
      f_authorityClass = authorityClass p, f_internalCachePropagation = internalCachePropagation p,
      f_readinessRelevant = readinessRelevant p,
      f_bootstrapHydrationMode = bootstrapHydrationMode p,
      f_externalCdcAllowed = externalCdcAllowed p,
      f_degradedByOperationIds = Some (degradedByOperationIds p)\<rparr>"

text \<open>
  The three object literals the table is written with: a propagated control table, which is or is not
  relevant to readiness, a control table that is not propagated, and the user table.
\<close>

definition propagated :: "string \<Rightarrow> bool \<Rightarrow> table_policy" where
  "propagated name ready = createTablePolicy (Some (js name))
     \<lparr>f_tableName = None, f_policyClass = CONTROL_INTERNAL_PROPAGATION, f_authorityClass = CONTROL,
      f_internalCachePropagation = True, f_readinessRelevant = ready,
      f_bootstrapHydrationMode = BOOTSTRAP_ONLY, f_externalCdcAllowed = False,
      f_degradedByOperationIds = None\<rparr>"

definition not_propagated :: "string \<Rightarrow> table_policy" where
  "not_propagated name = createTablePolicy (Some (js name))
     \<lparr>f_tableName = None, f_policyClass = CONTROL_NO_INTERNAL_PROPAGATION, f_authorityClass = CONTROL,
      f_internalCachePropagation = False, f_readinessRelevant = False,
      f_bootstrapHydrationMode = NO_HYDRATION, f_externalCdcAllowed = False,
      f_degradedByOperationIds = None\<rparr>"

definition USER_TABLE_NO_CDC_POLICY :: table_policy where
  "USER_TABLE_NO_CDC_POLICY = createTablePolicy None
     \<lparr>f_tableName = None, f_policyClass = USER_NO_CDC, f_authorityClass = USER,
      f_internalCachePropagation = False, f_readinessRelevant = False,
      f_bootstrapHydrationMode = NO_HYDRATION, f_externalCdcAllowed = False,
      f_degradedByOperationIds = None\<rparr>"

text \<open>The policies in the order of the source.\<close>

definition control_policies :: "table_policy list" where
  "control_policies =
     [propagated ''nodes'' True,
      propagated ''partitions'' True,
      propagated ''services'' True,
      propagated ''message_groups'' True,
      propagated ''tables'' True,
      propagated ''schema_migrations'' False,
      propagated ''indices'' True,
      propagated ''node_endpoints'' True,
      propagated ''service_instances'' False,
      propagated ''service_definitions'' True,
      propagated ''service_bindings'' False,
      propagated ''service_endpoints'' True,
      propagated ''replica_operations'' True,
      propagated ''storage_reservations'' True,
      propagated ''control_plane_publications'' True,
      propagated ''config'' True]"

definition transaction_policies :: "table_policy list" where
  "transaction_policies =
     [propagated ''sql_transactions'' True,
      propagated ''sql_transaction_participants'' True,
      not_propagated ''sql_write_operations'',
      not_propagated ''schema_operations'',
      not_propagated ''schema_migration_partitions'',
      propagated ''debug_sessions'' True,
      propagated ''latency_groups'' True,
      propagated ''inter_group_latencies'' True,
      propagated ''service_partition_access'' False]"

definition package_policies :: "table_policy list" where
  "package_policies =
     [not_propagated ''logs'',
      not_propagated ''contexts'',
      not_propagated ''code'',
      not_propagated ''live_queries'',
      not_propagated ''service_timers'',
      not_propagated ''service_packages'',
      not_propagated ''service_revisions'',
      not_propagated ''service_installations'',
      not_propagated ''service_install_failures'',
      not_propagated ''module_manifests'',
      not_propagated ''package_registry_mappings'',
      not_propagated ''package_registry_overrides'',
      not_propagated ''module_dependency_locks'',
      not_propagated ''wasm_operations'',
      not_propagated ''call_cell_reduce_slots'',
      not_propagated ''call_cell_reduce_results'']"

definition artifact_policies :: "table_policy list" where
  "artifact_policies =
     [propagated ''call_activation_leases'' False,
      not_propagated ''artifact_payloads'',
      not_propagated ''artifact_payload_chunks'',
      not_propagated ''debug_breakpoints'',
      not_propagated ''debug_snapshots'']"

definition SYSTEM_TABLE_CDC_POLICY_LIST :: "table_policy list" where
  "SYSTEM_TABLE_CDC_POLICY_LIST =
     control_policies @ transaction_policies @ package_policies @ artifact_policies"

definition CDC_PROPAGATED_TABLES :: "jsstring option list" where
  "CDC_PROPAGATED_TABLES =
     map tableName (filter internalCachePropagation SYSTEM_TABLE_CDC_POLICY_LIST)"

definition CDC_NON_PROPAGATED_TABLES :: "jsstring option list" where
  "CDC_NON_PROPAGATED_TABLES =
     map tableName (filter (\<lambda>p. \<not> internalCachePropagation p) SYSTEM_TABLE_CDC_POLICY_LIST)"

text \<open>
  A lookup in the policy object by a table's name also reaches the members an object inherits
  (\<open>constructor\<close>, \<open>toString\<close> and so on), which carry none of a policy's fields.
\<close>

definition inherited_names :: "jsstring list" where
  "inherited_names = map js
     [''constructor'', ''__defineGetter__'', ''__defineSetter__'', ''hasOwnProperty'',
      ''__lookupGetter__'', ''__lookupSetter__'', ''isPrototypeOf'', ''propertyIsEnumerable'',
      ''toString'', ''valueOf'', ''__proto__'', ''toLocaleString'']"

datatype found_policy = Found table_policy | InheritedMember

definition normalized_name :: "jsstring option \<Rightarrow> jsstring" where
  "normalized_name name = (case name of None \<Rightarrow> [] | Some s \<Rightarrow> s)"

definition own_policy :: "jsstring \<Rightarrow> table_policy option" where
  "own_policy name = List.find (\<lambda>p. tableName p = Some name) SYSTEM_TABLE_CDC_POLICY_LIST"

definition isKnownSystemTable :: "jsstring option \<Rightarrow> bool" where
  "isKnownSystemTable name \<longleftrightarrow> own_policy (normalized_name name) \<noteq> None"

definition getSystemTableCdcPolicy :: "jsstring option \<Rightarrow> found_policy option" where
  "getSystemTableCdcPolicy name =
     (let n = normalized_name name in
      case own_policy n of
        Some p \<Rightarrow> Some (Found p)
      | None \<Rightarrow> if n \<in> set inherited_names then Some InheritedMember else None)"

definition getTableCdcPolicy :: "jsstring option \<Rightarrow> found_policy" where
  "getTableCdcPolicy name =
     (let n = normalized_name name in
      case getSystemTableCdcPolicy (Some n) of
        Some p \<Rightarrow> p
      | None \<Rightarrow> Found (createTablePolicy (Some n) (fields_of_policy USER_TABLE_NO_CDC_POLICY)))"

fun policy_flag :: "(table_policy \<Rightarrow> bool) \<Rightarrow> found_policy \<Rightarrow> bool" where
  "policy_flag f (Found p) = f p"
| "policy_flag f InheritedMember = False"

definition isTableInternalCachePropagationEnabled :: "jsstring option \<Rightarrow> bool" where
  "isTableInternalCachePropagationEnabled name = policy_flag internalCachePropagation (getTableCdcPolicy name)"

definition isTableCdcReadinessRelevant :: "jsstring option \<Rightarrow> bool" where
  "isTableCdcReadinessRelevant name = policy_flag readinessRelevant (getTableCdcPolicy name)"

definition isTableCdcObligationRecorded :: "jsstring option \<Rightarrow> bool" where
  "isTableCdcObligationRecorded name \<longleftrightarrow>
     (let p = getTableCdcPolicy name in
      policy_flag internalCachePropagation p \<or> policy_flag externalCdcAllowed p)"

text \<open>
  The CDC request of a table policy: the two places that may ask for external CDC, each present with
  the value \<open>true\<close> or not.
\<close>

datatype cdc_policy_refusal = EXTERNAL_CDC_UNSUPPORTED

definition assertTablePolicyCdcRequestSupported :: "(bool \<times> bool) option \<Rightarrow> cdc_policy_refusal + unit" where
  "assertTablePolicyCdcRequestSupported policy =
     (case policy of
        None \<Rightarrow> Inr ()
      | Some (direct, nested) \<Rightarrow> if direct \<or> nested then Inl EXTERNAL_CDC_UNSUPPORTED else Inr ())"

subsection \<open>Properties\<close>

lemma createTablePolicy_simps [simp]:
  "tableName (propagated n r) = Some (js n)" "internalCachePropagation (propagated n r)"
  "\<not> externalCdcAllowed (propagated n r)"  "readinessRelevant (propagated n r) = r"
  "tableName (not_propagated n) = Some (js n)" "\<not> internalCachePropagation (not_propagated n)"
  "\<not> externalCdcAllowed (not_propagated n)"  "\<not> readinessRelevant (not_propagated n)"
  by (simp_all add: propagated_def not_propagated_def createTablePolicy_def)

lemmas policy_list_defs = SYSTEM_TABLE_CDC_POLICY_LIST_def control_policies_def transaction_policies_def
  package_policies_def artifact_policies_def

lemma policy_list_shape:
  "p \<in> set SYSTEM_TABLE_CDC_POLICY_LIST \<Longrightarrow> (\<exists>n r. p = propagated n r) \<or> (\<exists>n. p = not_propagated n)"
  by (auto simp: policy_list_defs)

lemma no_external: "p \<in> set SYSTEM_TABLE_CDC_POLICY_LIST \<Longrightarrow> \<not> externalCdcAllowed p"
  using policy_list_shape [of p] by auto

lemma user_policy_simps [simp]:
  "tableName (createTablePolicy n (fields_of_policy USER_TABLE_NO_CDC_POLICY)) = None"
  "policyClass (createTablePolicy n (fields_of_policy USER_TABLE_NO_CDC_POLICY)) = USER_NO_CDC"
  "\<not> internalCachePropagation (createTablePolicy n (fields_of_policy USER_TABLE_NO_CDC_POLICY))"
  "\<not> externalCdcAllowed (createTablePolicy n (fields_of_policy USER_TABLE_NO_CDC_POLICY))"
  by (simp_all add: USER_TABLE_NO_CDC_POLICY_def fields_of_policy_def createTablePolicy_def)

lemma getTableCdcPolicy_eq:
  "getTableCdcPolicy name =
     (case own_policy (normalized_name name) of
        Some p \<Rightarrow> Found p
      | None \<Rightarrow> if normalized_name name \<in> set inherited_names then InheritedMember
          else Found (createTablePolicy (Some (normalized_name name)) (fields_of_policy USER_TABLE_NO_CDC_POLICY)))"
  by (simp add: getTableCdcPolicy_def getSystemTableCdcPolicy_def Let_def normalized_name_def split: option.splits)

lemma normalized_name_Some [simp]: "normalized_name (Some n) = n"
  by (simp add: normalized_name_def)

lemma own_policy_Some:
  "own_policy n = Some p \<Longrightarrow> p \<in> set SYSTEM_TABLE_CDC_POLICY_LIST \<and> tableName p = Some n"
  by (auto simp: own_policy_def find_Some_iff)

lemma own_policy_None: "own_policy n = None \<longleftrightarrow> Some n \<notin> tableName ` set SYSTEM_TABLE_CDC_POLICY_LIST"
  by (force simp: own_policy_def find_None_iff)

lemma policy_names: "map (the \<circ> tableName) SYSTEM_TABLE_CDC_POLICY_LIST = map js
   [''nodes'', ''partitions'', ''services'', ''message_groups'', ''tables'', ''schema_migrations'',
    ''indices'', ''node_endpoints'', ''service_instances'', ''service_definitions'', ''service_bindings'',
    ''service_endpoints'', ''replica_operations'', ''storage_reservations'', ''control_plane_publications'',
    ''config'', ''sql_transactions'', ''sql_transaction_participants'', ''sql_write_operations'',
    ''schema_operations'', ''schema_migration_partitions'', ''debug_sessions'', ''latency_groups'',
    ''inter_group_latencies'', ''service_partition_access'', ''logs'', ''contexts'', ''code'',
    ''live_queries'', ''service_timers'', ''service_packages'', ''service_revisions'',
    ''service_installations'', ''service_install_failures'', ''module_manifests'',
    ''package_registry_mappings'', ''package_registry_overrides'', ''module_dependency_locks'',
    ''wasm_operations'', ''call_cell_reduce_slots'', ''call_cell_reduce_results'',
    ''call_activation_leases'', ''artifact_payloads'', ''artifact_payload_chunks'',
    ''debug_breakpoints'', ''debug_snapshots'']"
  by (simp add: policy_list_defs del: js_simps)

lemma inj_js: "inj js"
  by (rule injI) simp

lemma policy_names_distinct: "distinct (map (the \<circ> tableName) SYSTEM_TABLE_CDC_POLICY_LIST)"
  unfolding policy_names distinct_map by (rule conjI, code_simp, rule inj_on_subset [OF inj_js], rule subset_UNIV)

lemma policy_named: "p \<in> set SYSTEM_TABLE_CDC_POLICY_LIST \<Longrightarrow> tableName p = Some (the (tableName p))"
  using policy_list_shape by force

lemma own_policy_eq:
  assumes "p \<in> set SYSTEM_TABLE_CDC_POLICY_LIST" "tableName p = Some n"
  shows "own_policy n = Some p"
proof -
  obtain q where q: "own_policy n = Some q" using assms by (cases "own_policy n") (force simp: own_policy_None)+
  then have "q \<in> set SYSTEM_TABLE_CDC_POLICY_LIST" "tableName q = Some n" using own_policy_Some by blast+
  with assms policy_names_distinct have "q = p"
    by (auto simp: distinct_map inj_on_def)
  with q show ?thesis by simp
qed

text \<open>
  C33: The policy table is complete. The system tables of \<open>TABLES\<close> are exactly the tables with a
  policy, no table has two, a lookup of a system table finds its own policy, and no policy, of a
  system table or of a user table, allows external CDC.
\<close>

theorem policy_table_complete:
  "distinct (map tableName SYSTEM_TABLE_CDC_POLICY_LIST) \<and>
   tableName ` set SYSTEM_TABLE_CDC_POLICY_LIST = Some ` set TABLES \<and>
   (\<forall>n. isKnownSystemTable (Some n) \<longleftrightarrow> n \<in> set TABLES) \<and>
   (\<forall>n. \<not> policy_flag externalCdcAllowed (getTableCdcPolicy n))"
proof -
  have "map tableName SYSTEM_TABLE_CDC_POLICY_LIST =
      map Some (map (the \<circ> tableName) SYSTEM_TABLE_CDC_POLICY_LIST)"
    using policy_named by simp
  then have dist: "distinct (map tableName SYSTEM_TABLE_CDC_POLICY_LIST)"
    using policy_names_distinct by (simp only: distinct_map [of Some] inj_Some [THEN inj_on_subset]) simp
  have "tableName ` set SYSTEM_TABLE_CDC_POLICY_LIST =
      Some ` set (map (the \<circ> tableName) SYSTEM_TABLE_CDC_POLICY_LIST)"
    using policy_named by (force simp: image_image)
  also have "set (map (the \<circ> tableName) SYSTEM_TABLE_CDC_POLICY_LIST) = set TABLES"
    unfolding policy_names TABLES_def set_map by (rule arg_cong [where f = "image js"]) code_simp
  finally have names: "tableName ` set SYSTEM_TABLE_CDC_POLICY_LIST = Some ` set TABLES" .
  have "\<not> policy_flag externalCdcAllowed (getTableCdcPolicy n)" for n
    by (auto simp: getTableCdcPolicy_eq dest: own_policy_Some no_external split: option.splits)
  moreover have "isKnownSystemTable (Some n) \<longleftrightarrow> n \<in> set TABLES" for n
    unfolding isKnownSystemTable_def own_policy_None names by (auto simp: normalized_name_def)
  ultimately show ?thesis using dist names by blast
qed

lemma propagated_iff:
  "Some n \<in> set CDC_PROPAGATED_TABLES \<longleftrightarrow>
     (\<exists>q \<in> set SYSTEM_TABLE_CDC_POLICY_LIST. internalCachePropagation q \<and> tableName q = Some n)"
  unfolding CDC_PROPAGATED_TABLES_def by (simp add: image_iff) metis

lemma obligation_recorded_iff:
  "isTableCdcObligationRecorded (Some n) \<longleftrightarrow> Some n \<in> set CDC_PROPAGATED_TABLES"
proof (cases "own_policy n")
  case None
  then have "Some n \<notin> set CDC_PROPAGATED_TABLES"
    unfolding propagated_iff own_policy_None by (metis image_eqI)
  with None show ?thesis
    by (simp add: isTableCdcObligationRecorded_def getTableCdcPolicy_eq Let_def)
next
  case (Some p)
  then have p: "p \<in> set SYSTEM_TABLE_CDC_POLICY_LIST" "tableName p = Some n" using own_policy_Some by blast+
  then have "\<not> externalCdcAllowed p" using no_external by blast
  then have "isTableCdcObligationRecorded (Some n) \<longleftrightarrow> internalCachePropagation p"
    by (simp add: isTableCdcObligationRecorded_def getTableCdcPolicy_eq Let_def Some)
  also have "\<dots> \<longleftrightarrow> Some n \<in> set CDC_PROPAGATED_TABLES"
  proof -
    have "q = p" if "q \<in> set SYSTEM_TABLE_CDC_POLICY_LIST" "tableName q = Some n" for q
      using own_policy_eq [OF that] Some by simp
    with p show ?thesis unfolding propagated_iff by blast
  qed
  finally show ?thesis .
qed





end
