(* ===== verification/ParticipantBytes.thy ===== *)
theory ParticipantBytes
  imports Json Hlc JsSort
begin

text \<open>
  The pinned bytes of a participant transaction:
  \<open>src/src/partition/partition-participant-transaction-bytes.js\<close>, with the execution envelope's form
  from \<open>src/src/partition/partition-transaction-execution-envelope.js\<close>.

  A field of a command or request is missing, \<open>null\<close> or text. \<open>h\<close> stands for the hexadecimal SHA-256
  digest (\<open>node:crypto\<close>) and \<open>ns\<close> for the notation of numbers that are not safe integers.

  The lemmas show that a built decision record is read back by the canonical reader, that the
  commands the leader builds are in the pinned form, that a digest fixes the decision and the
  participants it names, and that a validation text names the generation and the origin it was made
  from.
\<close>

subsection \<open>Fields\<close>

datatype field = Undef | Null | Text jsstring

text \<open>What a template literal prints for a field.\<close>

fun to_text :: "field \<Rightarrow> jsstring" where
  "to_text Undef = js ''undefined''"
| "to_text Null = js ''null''"
| "to_text (Text s) = s"

definition isNonEmptyString :: "field \<Rightarrow> bool" where
  "isNonEmptyString f \<longleftrightarrow> (case f of Text s \<Rightarrow> s \<noteq> [] | _ \<Rightarrow> False)"

text \<open>The operator \<open>??\<close> with \<open>null\<close> on the right.\<close>

definition or_null :: "field \<Rightarrow> field" where
  "or_null f = (if f = Undef then Null else f)"

definition isSafeInteger :: "jsnum option \<Rightarrow> bool" where
  "isSafeInteger x \<longleftrightarrow> (case x of Some (Num (Fin q)) \<Rightarrow> is_safe_int q | _ \<Rightarrow> False)"

subsection \<open>Commands\<close>

datatype command_type = PARTICIPANT_PREPARE | PARTICIPANT_DECISION | PARTICIPANT_GENERATION_ORIGIN

record envelope =
  sqliteVersion :: field
  sqliteSourceId :: field
  compileOptionsDigest :: field
  classifierListVersion :: field

text \<open>
  \<open>hasOperations\<close> and \<open>hasSql\<close> say whether the command object carries a property \<open>operations\<close> or \<open>sql\<close>,
  which no participant command may.
\<close>

record pcommand =
  c_type :: command_type
  c_entryId :: field
  c_sessionId :: field
  c_transactionId :: field
  c_participantId :: field
  c_commitMode :: field
  c_transactionEpoch :: "jsnum option"
  c_operationsText :: field
  c_validationText :: field
  c_preparedDigest :: field
  c_decision :: field
  c_decisionText :: field
  c_decisionDigest :: field
  c_partitionId :: field
  c_timestamp :: field
  c_proposedBy :: field
  c_proposedAt :: "jsnum option"
  c_executionEnvelope :: "envelope option"
  hasOperations :: bool
  hasSql :: bool

datatype failure_code =
    IDENTITY_REQUIRED
  | IDENTITY_MISMATCH
  | TERMINAL
  | PREPARE_REFUSED
  | PREPARE_CONTENT_CONFLICT
  | RESERVED
  | NOT_PREPARED
  | COMMIT_REFUSED
  | DECISION_BINDING_REQUIRED
  | DECISION_DIGEST_MISMATCH
  | DECISION_CONFLICT

subsection \<open>Digests and identifiers\<close>

definition preparedDigestOf :: "(jsstring \<Rightarrow> jsstring) \<Rightarrow> field \<Rightarrow> field \<Rightarrow> jsstring" where
  "preparedDigestOf h operationsText validationText =
     h (to_text operationsText @ 10 # to_text validationText)"

definition int_num :: "int \<Rightarrow> xnum" where
  "int_num i = Fin (of_int i)"

definition validationTextOf ::
  "(xnum \<Rightarrow> jsstring) \<Rightarrow> (jsstring \<Rightarrow> jsstring) \<Rightarrow> int \<Rightarrow> jsstring \<Rightarrow> int \<Rightarrow> jsstring"
where
  "validationTextOf ns h generation partitionId originIndex =
     stringify ns (JArr [JArr [JStr (js ''partition''), JStr partitionId,
       JStr (h (js ''generation:'' @ num_to_string ns (int_num generation))),
       JNum (int_num originIndex)]])"

definition id_separator :: jsstring where
  "id_separator = js '':''"

definition generationOriginEntryIdOf :: "field \<Rightarrow> jsstring" where
  "generationOriginEntryIdOf partitionId = to_text partitionId @ id_separator @ js ''generation-origin''"

definition participantIdOf :: "field \<Rightarrow> jsstring \<Rightarrow> jsstring" where
  "participantIdOf transactionId partitionId = to_text transactionId @ id_separator @ partitionId"

definition prepareEntryIdOf :: "field \<Rightarrow> jsstring" where
  "prepareEntryIdOf participantId = to_text participantId @ id_separator @ js ''prepare''"

text \<open>\<open>Array.prototype.join\<close> prints a missing or \<open>null\<close> element as the empty text.\<close>

fun join_text :: "field \<Rightarrow> jsstring" where
  "join_text (Text s) = s"
| "join_text _ = []"

definition decisionEntryIdOf :: "field \<Rightarrow> field \<Rightarrow> jsstring" where
  "decisionEntryIdOf participantId decisionDigest =
     join_text participantId @ id_separator @ js ''decision'' @ id_separator @ join_text decisionDigest"

definition operationOutcomeKeyOf :: "field \<Rightarrow> nat \<Rightarrow> jsstring" where
  "operationOutcomeKeyOf participantId ordinal =
     js ''txop'' @ id_separator @ join_text participantId @ id_separator @ show_nat ordinal"

text \<open>The part of a request or command that names the participant.\<close>

record carrier =
  k_transactionId :: field
  k_participantId :: field
  k_commitMode :: field
  k_transactionEpoch :: "jsnum option"

definition carrier_of :: "pcommand \<Rightarrow> carrier" where
  "carrier_of c = \<lparr>k_transactionId = c_transactionId c, k_participantId = c_participantId c,
     k_commitMode = c_commitMode c, k_transactionEpoch = c_transactionEpoch c\<rparr>"

definition identityRefusalOf :: "carrier \<Rightarrow> jsstring \<Rightarrow> failure_code option" where
  "identityRefusalOf carrier partitionId =
     (if \<not> isNonEmptyString (k_transactionId carrier) \<or> \<not> isNonEmptyString (k_participantId carrier) \<or>
         \<not> isNonEmptyString (k_commitMode carrier) \<or> \<not> isSafeInteger (k_transactionEpoch carrier)
      then Some IDENTITY_REQUIRED
      else if k_participantId carrier = Text (participantIdOf (k_transactionId carrier) partitionId)
      then None else Some IDENTITY_MISMATCH)"

subsection \<open>Carried texts\<close>

definition parsedJsonOf :: "field \<Rightarrow> json" where
  "parsedJsonOf f =
     (case f of
        Text s \<Rightarrow> (case json_parse s of Some v \<Rightarrow> v | None \<Rightarrow> JNull)
      | _ \<Rightarrow> JNull)"

record operation =
  op_entryId :: "json option"
  op_sql :: jsstring
  op_params :: "json list"

text \<open>\<open>isOperation\<close> together with the fields the callers then read.\<close>

definition as_operation :: "json \<Rightarrow> operation option" where
  "as_operation v =
     (case (get_prop v (js ''sql''), get_prop v (js ''params'')) of
        (Some (JStr sql), Some (JArr params)) \<Rightarrow>
          Some \<lparr>op_entryId = get_prop v (js ''entryId''), op_sql = sql, op_params = params\<rparr>
      | _ \<Rightarrow> None)"

definition carriedOriginIndexOf :: "field \<Rightarrow> int option" where
  "carriedOriginIndexOf validationText =
     (case get_elem (parsedJsonOf validationText) 0 of
        Some inner \<Rightarrow>
          (case get_elem inner 3 of
             Some (JNum (Fin q)) \<Rightarrow> if is_safe_int q then Some \<lfloor>q\<rfloor> else None
           | _ \<Rightarrow> None)
      | None \<Rightarrow> None)"

fun all_some :: "'a option list \<Rightarrow> 'a list option" where
  "all_some [] = Some []"
| "all_some (None # xs) = None"
| "all_some (Some x # xs) = map_option ((#) x) (all_some xs)"

definition operationsOf :: "field \<Rightarrow> operation list option" where
  "operationsOf operationsText =
     (case parsedJsonOf operationsText of
        JArr vs \<Rightarrow> all_some (map as_operation vs)
      | _ \<Rightarrow> None)"

subsection \<open>The decision record\<close>

definition COMMIT :: jsstring where
  "COMMIT = js ''COMMIT''"

definition ROLLBACK :: jsstring where
  "ROLLBACK = js ''ROLLBACK''"

definition is_prefix :: "jsstring \<Rightarrow> jsstring \<Rightarrow> bool" where
  "is_prefix p s \<longleftrightarrow> take (length p) s = p"

type_synonym participant_entry = "jsstring \<times> jsstring option"

definition entry_json :: "participant_entry \<Rightarrow> json" where
  "entry_json e = JArr [JStr (fst e), (case snd e of None \<Rightarrow> JNull | Some d \<Rightarrow> JStr d)]"

text \<open>The check of one entry; the identifier of the entry before it is \<open>prev\<close>.\<close>

definition valid_entry :: "jsstring \<Rightarrow> jsstring \<Rightarrow> jsstring option \<Rightarrow> json \<Rightarrow> participant_entry option" where
  "valid_entry prefix decision prev v =
     (case v of
        JArr [JStr pid, d] \<Rightarrow>
          if pid \<noteq> [] \<and> is_prefix prefix pid \<and> length prefix < length pid \<and>
             (case prev of None \<Rightarrow> True | Some q \<Rightarrow> js_less q pid)
          then (case d of
                  JStr digest \<Rightarrow> if digest \<noteq> [] then Some (pid, Some digest) else None
                | JNull \<Rightarrow> if decision = ROLLBACK then Some (pid, None) else None
                | _ \<Rightarrow> None)
          else None
      | _ \<Rightarrow> None)"

fun valid_entries :: "jsstring \<Rightarrow> jsstring \<Rightarrow> jsstring option \<Rightarrow> json list \<Rightarrow> participant_entry list option" where
  "valid_entries prefix decision prev [] = Some []"
| "valid_entries prefix decision prev (v # vs) =
     (case valid_entry prefix decision prev v of
        None \<Rightarrow> None
      | Some e \<Rightarrow> map_option ((#) e) (valid_entries prefix decision (Some (fst e)) vs))"

definition validDecisionParticipants :: "jsstring \<Rightarrow> jsstring \<Rightarrow> json option \<Rightarrow> participant_entry list option" where
  "validDecisionParticipants transactionId decision participants =
     (case participants of
        Some (JArr vs) \<Rightarrow> valid_entries (transactionId @ id_separator) decision None vs
      | _ \<Rightarrow> None)"

record decision_record =
  d_transactionId :: jsstring
  d_decision :: jsstring
  d_participants :: "participant_entry list"
  d_decisionText :: jsstring
  d_decisionDigest :: jsstring

text \<open>What the reader is given: the text and digest, and what they are expected to name.\<close>

record binding =
  b_transactionId :: field
  b_participantId :: field
  b_decision :: field
  b_preparedDigest :: field
  b_decisionText :: field
  b_decisionDigest :: field

definition decision_json :: "jsstring \<Rightarrow> jsstring \<Rightarrow> participant_entry list \<Rightarrow> json" where
  "decision_json transactionId decision participants =
     JObj [(js ''transactionId'', JStr transactionId), (js ''decision'', JStr decision),
           (js ''participants'', JArr (map entry_json participants))]"

definition canonicalDecisionRecord ::
  "(xnum \<Rightarrow> jsstring) \<Rightarrow> (jsstring \<Rightarrow> jsstring) \<Rightarrow> binding \<Rightarrow> decision_record option"
where
  "canonicalDecisionRecord ns h binding =
     (let record = parsedJsonOf (b_decisionText binding) in
      case (get_prop record (js ''transactionId''), get_prop record (js ''decision'')) of
        (Some (JStr transactionId), Some (JStr decision)) \<Rightarrow>
          if transactionId = [] \<or> decision \<notin> {COMMIT, ROLLBACK} then None
          else
            (case validDecisionParticipants transactionId decision (get_prop record (js ''participants'')) of
               None \<Rightarrow> None
             | Some participants \<Rightarrow>
                 if (b_transactionId binding \<noteq> Undef \<and> b_transactionId binding \<noteq> Text transactionId) \<or>
                    (b_decision binding \<noteq> Undef \<and> b_decision binding \<noteq> Text decision)
                 then None
                 else
                   (let decisionText = stringify ns (decision_json transactionId decision participants) in
                    if Text decisionText \<noteq> b_decisionText binding \<or>
                       Text (h decisionText) \<noteq> b_decisionDigest binding
                    then None
                    else Some \<lparr>d_transactionId = transactionId, d_decision = decision,
                      d_participants = participants, d_decisionText = decisionText,
                      d_decisionDigest = h decisionText\<rparr>))
      | _ \<Rightarrow> None)"

text \<open>The participants of a built record arrive as pairs of identifier and digest, or not at all.\<close>

definition buildDecisionRecord ::
  "(xnum \<Rightarrow> jsstring) \<Rightarrow> (jsstring \<Rightarrow> jsstring) \<Rightarrow> jsstring \<Rightarrow> jsstring \<Rightarrow> participant_entry list option \<Rightarrow>
   decision_record option"
where
  "buildDecisionRecord ns h transactionId decision participants =
     (case participants of
        None \<Rightarrow> None
      | Some ps \<Rightarrow>
          (let entries = js_sort (\<lambda>l r. lex_compare (fst l) (fst r)) ps;
               decisionText = stringify ns (decision_json transactionId decision entries)
           in canonicalDecisionRecord ns h
                \<lparr>b_transactionId = Undef, b_participantId = Undef, b_decision = Undef,
                 b_preparedDigest = Undef, b_decisionText = Text decisionText,
                 b_decisionDigest = Text (h decisionText)\<rparr>))"

fun opt_field :: "jsstring option \<Rightarrow> field" where
  "opt_field None = Null"
| "opt_field (Some s) = Text s"

definition namesPreparedContent :: "decision_record \<Rightarrow> binding \<Rightarrow> bool" where
  "namesPreparedContent record binding \<longleftrightarrow>
     (let preparedDigest = or_null (b_preparedDigest binding);
          entries = filter (\<lambda>e. Text (fst e) = b_participantId binding) (d_participants record)
      in length entries = 1 \<and> opt_field (snd (hd entries)) = preparedDigest \<and>
         (b_decision binding = Text ROLLBACK \<or> isNonEmptyString preparedDigest))"

definition decisionBindingRefusalOf ::
  "(xnum \<Rightarrow> jsstring) \<Rightarrow> (jsstring \<Rightarrow> jsstring) \<Rightarrow> binding \<Rightarrow> failure_code option"
where
  "decisionBindingRefusalOf ns h binding =
     (if \<not> isNonEmptyString (b_decisionDigest binding) then Some DECISION_BINDING_REQUIRED
      else
        (case canonicalDecisionRecord ns h binding of
           Some record \<Rightarrow> if namesPreparedContent record binding then None else Some DECISION_DIGEST_MISMATCH
         | None \<Rightarrow> Some DECISION_DIGEST_MISMATCH))"

definition binding_of :: "pcommand \<Rightarrow> binding" where
  "binding_of c = \<lparr>b_transactionId = c_transactionId c, b_participantId = c_participantId c,
     b_decision = c_decision c, b_preparedDigest = c_preparedDigest c,
     b_decisionText = c_decisionText c, b_decisionDigest = c_decisionDigest c\<rparr>"

definition decisionMatchesPreparedRow :: "pcommand \<Rightarrow> jsstring option \<Rightarrow> bool" where
  "decisionMatchesPreparedRow command rowPreparedDigest \<longleftrightarrow>
     (let preparedDigest = or_null (c_preparedDigest command) in
      preparedDigest = opt_field rowPreparedDigest \<or>
      (c_decision command = Text ROLLBACK \<and> preparedDigest = Null))"

subsection \<open>Building commands\<close>

record identity =
  i_sessionId :: field
  i_transactionId :: field
  i_participantId :: field
  i_commitMode :: field
  i_transactionEpoch :: "jsnum option"

text \<open>The stamp is spread into the command; a transaction command's stamp carries the envelope too.\<close>

record stamp =
  s_timestamp :: field
  s_proposedBy :: field
  s_proposedAt :: "jsnum option"
  s_executionEnvelope :: "envelope option"

definition no_fields :: "command_type \<Rightarrow> jsstring \<Rightarrow> stamp \<Rightarrow> pcommand" where
  "no_fields ty entryId st =
     \<lparr>c_type = ty, c_entryId = Text entryId, c_sessionId = Undef, c_transactionId = Undef,
      c_participantId = Undef, c_commitMode = Undef, c_transactionEpoch = None,
      c_operationsText = Undef, c_validationText = Undef, c_preparedDigest = Undef,
      c_decision = Undef, c_decisionText = Undef, c_decisionDigest = Undef, c_partitionId = Undef,
      c_timestamp = s_timestamp st, c_proposedBy = s_proposedBy st, c_proposedAt = s_proposedAt st,
      c_executionEnvelope = s_executionEnvelope st, hasOperations = False, hasSql = False\<rparr>"

definition identityFieldsOf :: "identity \<Rightarrow> pcommand \<Rightarrow> pcommand" where
  "identityFieldsOf ident c =
     c\<lparr>c_sessionId := or_null (i_sessionId ident), c_transactionId := i_transactionId ident,
       c_participantId := i_participantId ident, c_commitMode := i_commitMode ident,
       c_transactionEpoch := i_transactionEpoch ident\<rparr>"

definition buildPrepareCommand ::
  "(jsstring \<Rightarrow> jsstring) \<Rightarrow> identity \<Rightarrow> jsstring \<Rightarrow> jsstring \<Rightarrow> stamp \<Rightarrow> pcommand"
where
  "buildPrepareCommand h ident operationsText validationText st =
     (identityFieldsOf ident
        (no_fields PARTICIPANT_PREPARE (prepareEntryIdOf (i_participantId ident)) st))
     \<lparr>c_operationsText := Text operationsText, c_validationText := Text validationText,
      c_preparedDigest := Text (preparedDigestOf h (Text operationsText) (Text validationText))\<rparr>"

definition buildDecisionCommand ::
  "identity \<Rightarrow> field \<Rightarrow> field \<Rightarrow> field \<Rightarrow> field \<Rightarrow> stamp \<Rightarrow> pcommand"
where
  "buildDecisionCommand ident decision preparedDigest decisionText decisionDigest st =
     (identityFieldsOf ident
        (no_fields PARTICIPANT_DECISION (decisionEntryIdOf (i_participantId ident) decisionDigest) st))
     \<lparr>c_decision := decision, c_preparedDigest := or_null preparedDigest,
      c_decisionText := decisionText, c_decisionDigest := decisionDigest\<rparr>"

definition buildGenerationOriginCommand :: "jsstring \<Rightarrow> stamp \<Rightarrow> pcommand" where
  "buildGenerationOriginCommand partitionId st =
     (no_fields PARTICIPANT_GENERATION_ORIGIN (generationOriginEntryIdOf (Text partitionId)) st)
     \<lparr>c_partitionId := Text partitionId\<rparr>"

subsection \<open>The pinned form\<close>

definition isExecutionEnvelope :: "envelope option \<Rightarrow> bool" where
  "isExecutionEnvelope e \<longleftrightarrow>
     (case e of
        None \<Rightarrow> False
      | Some v \<Rightarrow> isNonEmptyString (sqliteVersion v) \<and> isNonEmptyString (sqliteSourceId v) \<and>
          isNonEmptyString (compileOptionsDigest v) \<and> isNonEmptyString (classifierListVersion v))"

definition carriesPinnedIdentity :: "pcommand \<Rightarrow> bool" where
  "carriesPinnedIdentity c \<longleftrightarrow>
     (let prefix = to_text (c_transactionId c) @ id_separator in
      isNonEmptyString (c_transactionId c) \<and> isNonEmptyString (c_participantId c) \<and>
      is_prefix prefix (to_text (c_participantId c)) \<and>
      length prefix < length (to_text (c_participantId c)) \<and>
      isNonEmptyString (c_commitMode c) \<and> isSafeInteger (c_transactionEpoch c))"

fun is_text :: "field \<Rightarrow> bool" where
  "is_text (Text _) = True"
| "is_text _ = False"

definition isPinnedPrepare :: "(jsstring \<Rightarrow> jsstring) \<Rightarrow> pcommand \<Rightarrow> bool" where
  "isPinnedPrepare h c \<longleftrightarrow>
     is_text (c_operationsText c) \<and> is_text (c_validationText c) \<and>
     c_preparedDigest c = Text (preparedDigestOf h (c_operationsText c) (c_validationText c)) \<and>
     c_entryId c = Text (prepareEntryIdOf (c_participantId c))"

definition isPinnedDecision :: "(xnum \<Rightarrow> jsstring) \<Rightarrow> (jsstring \<Rightarrow> jsstring) \<Rightarrow> pcommand \<Rightarrow> bool" where
  "isPinnedDecision ns h c \<longleftrightarrow>
     decisionBindingRefusalOf ns h (binding_of c) = None \<and>
     c_entryId c = Text (decisionEntryIdOf (c_participantId c) (c_decisionDigest c)) \<and>
     c_operationsText c = Undef \<and> \<not> hasOperations c"

definition isPinnedGenerationOrigin :: "pcommand \<Rightarrow> bool" where
  "isPinnedGenerationOrigin c \<longleftrightarrow>
     isNonEmptyString (c_partitionId c) \<and>
     c_entryId c = Text (generationOriginEntryIdOf (c_partitionId c)) \<and>
     c_transactionId c = Undef \<and> \<not> hasSql c"

text \<open>A finite number that is not negative.\<close>

definition is_nonneg_finite :: "jsnum option \<Rightarrow> bool" where
  "is_nonneg_finite x \<longleftrightarrow> (case x of Some (Num (Fin q)) \<Rightarrow> 0 \<le> q | _ \<Rightarrow> False)"

definition isCanonicalRetainedGenerationOrigin :: "(xnum \<Rightarrow> jsstring) \<Rightarrow> pcommand \<Rightarrow> jsstring \<Rightarrow> bool" where
  "isCanonicalRetainedGenerationOrigin ns c partitionId \<longleftrightarrow>
     c_type c = PARTICIPANT_GENERATION_ORIGIN \<and> c_partitionId c = Text partitionId \<and>
     isPinnedGenerationOrigin c \<and>
     (case hlc_tryFromString (case c_timestamp c of Text t \<Rightarrow> Some t | _ \<Rightarrow> None) of
        None \<Rightarrow> False
      | Some clock \<Rightarrow> Text (hlc_toString ns clock) = c_timestamp c) \<and>
     isNonEmptyString (c_proposedBy c) \<and> is_nonneg_finite (c_proposedAt c) \<and>
     c = buildGenerationOriginCommand partitionId
           \<lparr>s_timestamp = c_timestamp c, s_proposedBy = c_proposedBy c, s_proposedAt = c_proposedAt c,
            s_executionEnvelope = None\<rparr>"

definition isPinnedParticipantCommand :: "(xnum \<Rightarrow> jsstring) \<Rightarrow> (jsstring \<Rightarrow> jsstring) \<Rightarrow> pcommand \<Rightarrow> bool" where
  "isPinnedParticipantCommand ns h c \<longleftrightarrow>
     (if c_type c = PARTICIPANT_GENERATION_ORIGIN then isPinnedGenerationOrigin c
      else if \<not> carriesPinnedIdentity c \<or> \<not> isExecutionEnvelope (c_executionEnvelope c) then False
      else if c_type c = PARTICIPANT_PREPARE then isPinnedPrepare h c
      else isPinnedDecision ns h c)"

subsection \<open>Laws\<close>

lemma isNonEmptyString_Text [simp]: "isNonEmptyString (Text s) \<longleftrightarrow> s \<noteq> []"
  by (simp add: isNonEmptyString_def)

lemma isNonEmptyString_iff: "isNonEmptyString f \<longleftrightarrow> (\<exists>s. f = Text s \<and> s \<noteq> [])"
  by (cases f) (auto simp: isNonEmptyString_def)

lemma or_null_simps [simp]: "or_null (Text s) = Text s" "or_null Null = Null" "or_null Undef = Null"
  by (simp_all add: or_null_def)

lemma opt_field_inject [simp]: "opt_field a = opt_field b \<longleftrightarrow> a = b"
  by (cases a; cases b) auto

lemma parsedJsonOf_stringify [simp]: "plain v \<Longrightarrow> parsedJsonOf (Text (stringify ns v)) = v"
  by (simp add: parsedJsonOf_def json_roundtrip)

lemma plain_entry [simp]: "plain (entry_json e)"
  by (cases e; cases "snd e") (auto simp: entry_json_def)

lemma plain_decision_json [simp]: "plain (decision_json t d ps)"
  by (auto simp: decision_json_def)

lemma entry_json_inject [simp]: "entry_json a = entry_json b \<longleftrightarrow> a = b"
  by (cases a; cases b) (auto simp: entry_json_def split: option.splits)

lemma decision_json_inject [simp]:
  "decision_json t d ps = decision_json t' d' ps' \<longleftrightarrow> t = t' \<and> d = d' \<and> ps = ps'"
  by (auto simp: decision_json_def inj_map_eq_map inj_def)

lemma decision_json_props [simp]:
  "get_prop (decision_json t d ps) (js ''transactionId'') = Some (JStr t)"
  "get_prop (decision_json t d ps) (js ''decision'') = Some (JStr d)"
  "get_prop (decision_json t d ps) (js ''participants'') = Some (JArr (map entry_json ps))"
  by (simp_all add: decision_json_def del: js_simps)

text \<open>An entry the canonical reader accepts.\<close>

definition entry_ok :: "jsstring \<Rightarrow> jsstring \<Rightarrow> participant_entry \<Rightarrow> bool" where
  "entry_ok prefix decision e \<longleftrightarrow>
     is_prefix prefix (fst e) \<and> length prefix < length (fst e) \<and>
     (case snd e of Some d \<Rightarrow> d \<noteq> [] | None \<Rightarrow> decision = ROLLBACK)"

definition entries_sorted :: "participant_entry list \<Rightarrow> bool" where
  "entries_sorted = successively (\<lambda>a b. js_less (fst a) (fst b))"

lemma valid_entry_iff:
  "valid_entry prefix decision prev v = Some e \<longleftrightarrow>
     v = entry_json e \<and> entry_ok prefix decision e \<and> (\<forall>q. prev = Some q \<longrightarrow> js_less q (fst e))"
proof (cases "\<exists>p d. v = JArr [JStr p, d]")
  case True
  then obtain p d where v: "v = JArr [JStr p, d]" by blast
  show ?thesis unfolding v valid_entry_def entry_ok_def entry_json_def
    by (cases e; cases "snd e"; cases d; cases prev) auto
next
  case False
  then have "valid_entry prefix decision prev v = None"
    by (auto simp: valid_entry_def split: json.splits list.splits)
  moreover have "v \<noteq> entry_json e" using False by (auto simp: entry_json_def)
  ultimately show ?thesis by simp
qed

lemma valid_entries_iff:
  "valid_entries prefix decision prev vs = Some es \<longleftrightarrow>
     vs = map entry_json es \<and> list_all (entry_ok prefix decision) es \<and> entries_sorted es \<and>
     (\<forall>q. prev = Some q \<longrightarrow> es \<noteq> [] \<longrightarrow> js_less q (fst (hd es)))"
proof (induction vs arbitrary: prev es)
  case Nil
  then show ?case by (auto simp: entries_sorted_def)
next
  case (Cons v vs)
  show ?case
  proof (cases es)
    case Nil
    then show ?thesis by (auto split: option.splits)
  next
    case (Cons e es')
    have "valid_entries prefix decision prev (v # vs) = Some (e # es') \<longleftrightarrow>
        valid_entry prefix decision prev v = Some e \<and>
        valid_entries prefix decision (Some (fst e)) vs = Some es'"
      by (auto split: option.splits)
    then show ?thesis
      unfolding Cons Cons.IH valid_entry_iff entries_sorted_def by (cases es') auto
  qed
qed

lemma validDecisionParticipants_iff:
  "validDecisionParticipants t d (Some (JArr vs)) = Some es \<longleftrightarrow>
     vs = map entry_json es \<and> list_all (entry_ok (t @ id_separator) d) es \<and> entries_sorted es"
  by (simp add: validDecisionParticipants_def valid_entries_iff)

text \<open>Exactly the records the reader accepts.\<close>

definition record_ok :: "decision_record \<Rightarrow> bool" where
  "record_ok r \<longleftrightarrow> d_transactionId r \<noteq> [] \<and> d_decision r \<in> {COMMIT, ROLLBACK} \<and>
     list_all (entry_ok (d_transactionId r @ id_separator) (d_decision r)) (d_participants r) \<and>
     entries_sorted (d_participants r)"

lemma canonicalDecisionRecordD:
  assumes "canonicalDecisionRecord ns h b = Some r"
  shows "record_ok r"
    and "d_decisionText r = stringify ns (decision_json (d_transactionId r) (d_decision r) (d_participants r))"
    and "b_decisionText b = Text (d_decisionText r)"
    and "b_decisionDigest b = Text (d_decisionDigest r)"
    and "d_decisionDigest r = h (d_decisionText r)"
    and "b_transactionId b \<in> {Undef, Text (d_transactionId r)}"
    and "b_decision b \<in> {Undef, Text (d_decision r)}"
proof -
  let ?v = "parsedJsonOf (b_decisionText b)"
  obtain t d where td: "get_prop ?v (js ''transactionId'') = Some (JStr t)"
      "get_prop ?v (js ''decision'') = Some (JStr d)" "t \<noteq> []" "d \<in> {COMMIT, ROLLBACK}"
    using assms
    by (fastforce simp: canonicalDecisionRecord_def Let_def split: option.splits json.splits if_splits
        simp del: js_simps)
  then obtain es where es: "validDecisionParticipants t d (get_prop ?v (js ''participants'')) = Some es"
      "b_transactionId b \<in> {Undef, Text t}" "b_decision b \<in> {Undef, Text d}"
      "Text (stringify ns (decision_json t d es)) = b_decisionText b"
      "Text (h (stringify ns (decision_json t d es))) = b_decisionDigest b"
      "r = \<lparr>d_transactionId = t, d_decision = d, d_participants = es,
            d_decisionText = stringify ns (decision_json t d es),
            d_decisionDigest = h (stringify ns (decision_json t d es))\<rparr>"
    using assms
    by (auto simp: canonicalDecisionRecord_def Let_def split: option.splits if_splits simp del: js_simps)
  obtain vs where "get_prop ?v (js ''participants'') = Some (JArr vs)"
    using es(1) by (auto simp: validDecisionParticipants_def split: option.splits json.splits)
  with es(1) have "list_all (entry_ok (t @ id_separator) d) es" "entries_sorted es"
    by (simp_all add: validDecisionParticipants_iff)
  with td show "record_ok r" by (simp add: record_ok_def es(6))
  show "d_decisionText r = stringify ns (decision_json (d_transactionId r) (d_decision r) (d_participants r))"
    "b_decisionText b = Text (d_decisionText r)" "b_decisionDigest b = Text (d_decisionDigest r)"
    "d_decisionDigest r = h (d_decisionText r)" "b_transactionId b \<in> {Undef, Text (d_transactionId r)}"
    "b_decision b \<in> {Undef, Text (d_decision r)}"
    using es by simp_all
qed

lemma canonicalDecisionRecordI:
  assumes "record_ok r"
    and "d_decisionText r = stringify ns (decision_json (d_transactionId r) (d_decision r) (d_participants r))"
    and "d_decisionDigest r = h (d_decisionText r)"
    and "b_decisionText b = Text (d_decisionText r)" "b_decisionDigest b = Text (d_decisionDigest r)"
    and "b_transactionId b \<in> {Undef, Text (d_transactionId r)}"
    and "b_decision b \<in> {Undef, Text (d_decision r)}"
  shows "canonicalDecisionRecord ns h b = Some r"
proof -
  have v: "parsedJsonOf (b_decisionText b) =
      decision_json (d_transactionId r) (d_decision r) (d_participants r)"
    unfolding assms(4) assms(2) by simp
  have es: "validDecisionParticipants (d_transactionId r) (d_decision r)
      (Some (JArr (map entry_json (d_participants r)))) = Some (d_participants r)"
    using assms(1) by (simp add: validDecisionParticipants_iff record_ok_def)
  show ?thesis
    unfolding canonicalDecisionRecord_def Let_def v decision_json_props
    using assms es by (auto simp: record_ok_def)
qed

lemma js_less_asym: "js_less s t \<Longrightarrow> \<not> js_less t s"
  using js_less_trans [of s t s] by auto

lemma entries_sortedI:
  "successively (\<lambda>a b. \<not> js_less (fst b) (fst a)) zs \<Longrightarrow> distinct (map fst zs) \<Longrightarrow> entries_sorted zs"
proof (induction zs rule: induct_list012)
  case (3 a b zs)
  then show ?case using js_less_total [of "fst a" "fst b"] by (simp add: entries_sorted_def)
qed (simp_all add: entries_sorted_def)

lemma entries_sorted_js_sort:
  assumes "distinct (map fst ps)"
  shows "entries_sorted (js_sort (\<lambda>l r. lex_compare (fst l) (fst r)) ps)"
proof (rule entries_sortedI)
  show "successively (\<lambda>a b. \<not> js_less (fst b) (fst a)) (js_sort (\<lambda>l r. lex_compare (fst l) (fst r)) ps)"
    by (rule js_sort_sorted) (simp add: js_less_asym flip: js_less_def)
  show "distinct (map fst (js_sort (\<lambda>l r. lex_compare (fst l) (fst r)) ps))"
    by (rule mset_eq_imp_distinct_iff [THEN iffD2, OF _ assms]) simp
qed

subsection \<open>Properties\<close>

lemma buildDecisionRecord_eq:
  assumes "t \<noteq> []" "d \<in> {COMMIT, ROLLBACK}" "list_all (entry_ok (t @ id_separator) d) ps"
    "distinct (map fst ps)" "es = js_sort (\<lambda>l r. lex_compare (fst l) (fst r)) ps"
  shows "buildDecisionRecord ns h t d (Some ps) =
     Some \<lparr>d_transactionId = t, d_decision = d, d_participants = es,
           d_decisionText = stringify ns (decision_json t d es),
           d_decisionDigest = h (stringify ns (decision_json t d es))\<rparr>"
  unfolding buildDecisionRecord_def option.case Let_def
proof (rule canonicalDecisionRecordI, goal_cases)
  case 1
  have "list_all (entry_ok (t @ id_separator) d) es" using assms(3) by (simp add: assms(5) list_all_iff)
  moreover have "entries_sorted es" unfolding assms(5) by (rule entries_sorted_js_sort [OF assms(4)])
  ultimately show ?case using assms(1,2) by (simp add: record_ok_def)
qed (simp_all add: assms(5))

text \<open>
  C29: Building a decision record and reading it back. For a non-empty transaction identifier, a
  \<open>COMMIT\<close> or \<open>ROLLBACK\<close>, and participants of that transaction with distinct identifiers and
  non-empty prepared digests (a \<open>ROLLBACK\<close> may carry none), \<open>buildDecisionRecord\<close> succeeds, keeps
  exactly the given participants in ascending order, and \<open>canonicalDecisionRecord\<close> reads its text and
  digest back as the same record, whether or not the caller says which transaction and decision it
  expects.
\<close>

theorem decision_record_roundtrip:
  assumes "t \<noteq> []" "d \<in> {COMMIT, ROLLBACK}" "list_all (entry_ok (t @ id_separator) d) ps"
    "distinct (map fst ps)"
  shows "\<exists>r. buildDecisionRecord ns h t d (Some ps) = Some r \<and> d_transactionId r = t \<and> d_decision r = d \<and>
     mset (d_participants r) = mset ps \<and> entries_sorted (d_participants r) \<and>
     (\<forall>b. b_decisionText b = Text (d_decisionText r) \<and> b_decisionDigest b = Text (d_decisionDigest r) \<and>
        b_transactionId b \<in> {Undef, Text t} \<and> b_decision b \<in> {Undef, Text d} \<longrightarrow>
        canonicalDecisionRecord ns h b = Some r)"
proof -
  let ?es = "js_sort (\<lambda>l r. lex_compare (fst l) (fst r)) ps"
  let ?r = "\<lparr>d_transactionId = t, d_decision = d, d_participants = ?es,
           d_decisionText = stringify ns (decision_json t d ?es),
           d_decisionDigest = h (stringify ns (decision_json t d ?es))\<rparr>"
  have ok: "record_ok ?r"
    using assms by (simp add: record_ok_def entries_sorted_js_sort list_all_iff)
  have "canonicalDecisionRecord ns h b = Some ?r"
    if "b_decisionText b = Text (d_decisionText ?r)" "b_decisionDigest b = Text (d_decisionDigest ?r)"
      "b_transactionId b \<in> {Undef, Text t}" "b_decision b \<in> {Undef, Text d}" for b
    by (rule canonicalDecisionRecordI [OF ok]) (use that in simp_all)
  then show ?thesis
    using buildDecisionRecord_eq [OF assms refl, of ns h] ok
    by (intro exI [of _ ?r]) (simp add: record_ok_def)
qed

definition example_entries :: "participant_entry list" where
  "example_entries = [(js ''t:p2'', Some (js ''d2'')), (js ''t:p1'', Some (js ''d1''))]"

lemma example_entries_ok:
  "list_all (entry_ok (js ''t'' @ id_separator) COMMIT) example_entries"
  "distinct (map fst example_entries)"
  by (simp_all add: example_entries_def entry_ok_def is_prefix_def id_separator_def)

theorem decision_record_roundtrip_witness:
  "\<exists>r. buildDecisionRecord (\<lambda>_. []) id (js ''t'') COMMIT (Some example_entries) = Some r \<and>
     canonicalDecisionRecord (\<lambda>_. []) id
       \<lparr>b_transactionId = Text (js ''t''), b_participantId = Undef, b_decision = Undef,
        b_preparedDigest = Undef, b_decisionText = Text (d_decisionText r),
        b_decisionDigest = Text (d_decisionDigest r)\<rparr> = Some r"
  using decision_record_roundtrip [OF _ _ example_entries_ok, where ns = "\<lambda>_. []" and h = id] by force

lemma decisionBindingRefusalOf_None:
  assumes "decisionBindingRefusalOf ns h b = None"
  obtains r where "canonicalDecisionRecord ns h b = Some r" "namesPreparedContent r b"
    "isNonEmptyString (b_decisionDigest b)"
  using assms by (auto simp: decisionBindingRefusalOf_def split: if_splits option.splits)

lemma canonical_digest_inject:
  assumes "inj_on h (range (stringify ns))"
    and "canonicalDecisionRecord ns h b = Some r" "canonicalDecisionRecord ns h b' = Some r'"
    and "b_decisionDigest b = b_decisionDigest b'"
  shows "r = r'"
proof -
  note D = canonicalDecisionRecordD [OF assms(2)] and D' = canonicalDecisionRecordD [OF assms(3)]
  have "h (d_decisionText r) = h (d_decisionText r')"
    using D(4,5) D'(4,5) assms(4) by simp
  then have "d_decisionText r = d_decisionText r'"
    by (rule inj_onD [OF assms(1)]) (simp_all add: D(2) D'(2))
  moreover from this have "decision_json (d_transactionId r) (d_decision r) (d_participants r) =
      decision_json (d_transactionId r') (d_decision r') (d_participants r')"
    unfolding D(2) D'(2) by (intro stringify_inject) simp_all
  ultimately show ?thesis using D(5) D'(5) by simp
qed

lemma namesPreparedContent_mem:
  assumes "namesPreparedContent r b"
  obtains p where "b_participantId b = Text p"
    "\<exists>e. (p, e) \<in> set (d_participants r) \<and> opt_field e = or_null (b_preparedDigest b)"
proof -
  let ?es = "filter (\<lambda>e. Text (fst e) = b_participantId b) (d_participants r)"
  have len: "length ?es = 1" and dig: "opt_field (snd (hd ?es)) = or_null (b_preparedDigest b)"
    using assms by (simp_all add: namesPreparedContent_def Let_def)
  have "hd ?es \<in> set ?es" using len by (cases ?es) auto
  then have "hd ?es \<in> set (d_participants r)" "Text (fst (hd ?es)) = b_participantId b" by auto
  with dig show thesis by (intro that [of "fst (hd ?es)"]) (auto intro!: exI [of _ "snd (hd ?es)"])
qed

text \<open>
  C30: A decision digest names one decision. When the digest function does not collide on JSON texts,
  two committed \<open>PARTICIPANT_DECISION\<close> commands in the pinned form that carry the same decision digest
  belong to the same transaction and carry the same decision; and when they address the same
  participant they carry the same prepared digest. So no participant commits a transaction under a
  digest under which another one rolls it back.
\<close>

theorem decision_digest_binds_decision:
  assumes "inj_on h (range (stringify ns))"
    and "isPinnedParticipantCommand ns h c" "isPinnedParticipantCommand ns h c'"
    and "c_type c = PARTICIPANT_DECISION" "c_type c' = PARTICIPANT_DECISION"
    and "c_decisionDigest c = c_decisionDigest c'" "c_decision c \<noteq> Undef" "c_decision c' \<noteq> Undef"
  shows "c_transactionId c = c_transactionId c' \<and> c_decision c = c_decision c' \<and>
     (c_participantId c = c_participantId c' \<longrightarrow>
        or_null (c_preparedDigest c) = or_null (c_preparedDigest c'))"
proof -
  have pin: "carriesPinnedIdentity c" "isPinnedDecision ns h c"
      "carriesPinnedIdentity c'" "isPinnedDecision ns h c'"
    using assms(2-5) by (auto simp: isPinnedParticipantCommand_def split: if_splits)
  obtain r where r: "canonicalDecisionRecord ns h (binding_of c) = Some r"
      "namesPreparedContent r (binding_of c)"
    using pin(2) by (auto simp: isPinnedDecision_def elim: decisionBindingRefusalOf_None)
  obtain r' where r': "canonicalDecisionRecord ns h (binding_of c') = Some r'"
      "namesPreparedContent r' (binding_of c')"
    using pin(4) by (auto simp: isPinnedDecision_def elim: decisionBindingRefusalOf_None)
  have eq: "r = r'"
    by (rule canonical_digest_inject [OF assms(1) r(1) r'(1)]) (simp add: binding_of_def assms(6))
  have "c_transactionId c \<noteq> Undef" "c_transactionId c' \<noteq> Undef"
    using pin(1,3) by (auto simp: carriesPinnedIdentity_def Let_def isNonEmptyString_def)
  then have same: "c_transactionId c = c_transactionId c'" "c_decision c = c_decision c'"
    using canonicalDecisionRecordD(6,7) [OF r(1)] canonicalDecisionRecordD(6,7) [OF r'(1)] eq assms(7,8)
    by (auto simp: binding_of_def)
  have "or_null (c_preparedDigest c) = or_null (c_preparedDigest c')" if "c_participantId c = c_participantId c'"
    using r(2) r'(2) that unfolding eq namesPreparedContent_def Let_def
    by (simp add: binding_of_def)
  with same show ?thesis by blast
qed

definition identity_carrier :: "identity \<Rightarrow> carrier" where
  "identity_carrier i = \<lparr>k_transactionId = i_transactionId i, k_participantId = i_participantId i,
     k_commitMode = i_commitMode i, k_transactionEpoch = i_transactionEpoch i\<rparr>"

lemma is_prefix_append [simp]: "is_prefix p (p @ s)"
  by (simp add: is_prefix_def)

lemma is_prefix_append2 [simp]: "is_prefix (p @ q) (p @ q @ s)"
  using is_prefix_append [of "p @ q" s] by simp

lemma identityRefusalOf_None:
  "identityRefusalOf k p = None \<longleftrightarrow>
     isNonEmptyString (k_transactionId k) \<and> isNonEmptyString (k_participantId k) \<and>
     isNonEmptyString (k_commitMode k) \<and> isSafeInteger (k_transactionEpoch k) \<and>
     k_participantId k = Text (participantIdOf (k_transactionId k) p)"
  by (auto simp: identityRefusalOf_def)

lemma built_identity_pinned:
  assumes "identityRefusalOf (identity_carrier ident) partitionId = None" "partitionId \<noteq> []"
    "c_transactionId c = i_transactionId ident" "c_participantId c = i_participantId ident"
    "c_commitMode c = i_commitMode ident" "c_transactionEpoch c = i_transactionEpoch ident"
  shows "carriesPinnedIdentity c"
  using assms
  by (auto simp: identityRefusalOf_None identity_carrier_def carriesPinnedIdentity_def Let_def
      participantIdOf_def)

lemma buildPrepareCommand_fields [simp]:
  "c_type (buildPrepareCommand h i ops val st) = PARTICIPANT_PREPARE"
  "c_entryId (buildPrepareCommand h i ops val st) = Text (prepareEntryIdOf (i_participantId i))"
  "c_transactionId (buildPrepareCommand h i ops val st) = i_transactionId i"
  "c_participantId (buildPrepareCommand h i ops val st) = i_participantId i"
  "c_commitMode (buildPrepareCommand h i ops val st) = i_commitMode i"
  "c_transactionEpoch (buildPrepareCommand h i ops val st) = i_transactionEpoch i"
  "c_operationsText (buildPrepareCommand h i ops val st) = Text ops"
  "c_validationText (buildPrepareCommand h i ops val st) = Text val"
  "c_preparedDigest (buildPrepareCommand h i ops val st) = Text (preparedDigestOf h (Text ops) (Text val))"
  "c_executionEnvelope (buildPrepareCommand h i ops val st) = s_executionEnvelope st"
  by (simp_all add: buildPrepareCommand_def identityFieldsOf_def no_fields_def)

lemma buildDecisionCommand_fields [simp]:
  "c_type (buildDecisionCommand i d pd dt dd st) = PARTICIPANT_DECISION"
  "c_entryId (buildDecisionCommand i d pd dt dd st) = Text (decisionEntryIdOf (i_participantId i) dd)"
  "c_transactionId (buildDecisionCommand i d pd dt dd st) = i_transactionId i"
  "c_participantId (buildDecisionCommand i d pd dt dd st) = i_participantId i"
  "c_commitMode (buildDecisionCommand i d pd dt dd st) = i_commitMode i"
  "c_transactionEpoch (buildDecisionCommand i d pd dt dd st) = i_transactionEpoch i"
  "c_operationsText (buildDecisionCommand i d pd dt dd st) = Undef"
  "c_decision (buildDecisionCommand i d pd dt dd st) = d"
  "c_preparedDigest (buildDecisionCommand i d pd dt dd st) = or_null pd"
  "c_decisionText (buildDecisionCommand i d pd dt dd st) = dt"
  "c_decisionDigest (buildDecisionCommand i d pd dt dd st) = dd"
  "c_executionEnvelope (buildDecisionCommand i d pd dt dd st) = s_executionEnvelope st"
  "hasOperations (buildDecisionCommand i d pd dt dd st) = False"
  by (simp_all add: buildDecisionCommand_def identityFieldsOf_def no_fields_def)

lemma buildGenerationOriginCommand_fields [simp]:
  "c_type (buildGenerationOriginCommand p st) = PARTICIPANT_GENERATION_ORIGIN"
  "c_entryId (buildGenerationOriginCommand p st) = Text (generationOriginEntryIdOf (Text p))"
  "c_partitionId (buildGenerationOriginCommand p st) = Text p"
  "c_transactionId (buildGenerationOriginCommand p st) = Undef"
  "hasSql (buildGenerationOriginCommand p st) = False"
  by (simp_all add: buildGenerationOriginCommand_def no_fields_def)

lemma distinct_filter_single:
  "distinct (map fst ps) \<Longrightarrow> (p, e) \<in> set ps \<Longrightarrow> filter (\<lambda>x. Text (fst x) = Text p) ps = [(p, e)]"
  by (induction ps) (force simp: filter_empty_conv)+

lemma entries_sorted_less:
  "entries_sorted (a # es) \<Longrightarrow> b \<in> set es \<Longrightarrow> js_less (fst a) (fst b)"
proof (induction es arbitrary: a)
  case (Cons c es)
  then have "entries_sorted (c # es)" "js_less (fst a) (fst c)" by (auto simp: entries_sorted_def)
  with Cons.prems Cons.IH [of c] show ?case using js_less_trans [of "fst a" "fst c" "fst b"] by auto
qed simp

lemma entries_sorted_distinct: "entries_sorted es \<Longrightarrow> distinct (map fst es)"
proof (induction es)
  case (Cons a es)
  then have "distinct (map fst es)" by (cases es) (auto simp: entries_sorted_def)
  moreover have "fst a \<notin> fst ` set es" using entries_sorted_less [OF Cons.prems] by force
  ultimately show ?case by simp
qed simp

lemma built_decision_pinned:
  assumes ident: "identityRefusalOf (identity_carrier i) partitionId = None" "partitionId \<noteq> []"
    and env: "isExecutionEnvelope (s_executionEnvelope st)"
    and r: "canonicalDecisionRecord ns h b = Some r" "d_decisionDigest r \<noteq> []"
      "i_transactionId i = Text (d_transactionId r)"
    and entry: "i_participantId i = Text p" "(p, e) \<in> set (d_participants r)"
  shows "isPinnedParticipantCommand ns h
     (buildDecisionCommand i (Text (d_decision r)) (opt_field e) (Text (d_decisionText r))
        (Text (d_decisionDigest r)) st)"
    (is "isPinnedParticipantCommand ns h ?c")
proof -
  note D = canonicalDecisionRecordD [OF r(1)]
  have can: "canonicalDecisionRecord ns h (binding_of ?c) = Some r"
    by (rule canonicalDecisionRecordI [OF D(1,2)]) (simp_all add: binding_of_def r(3) D(5))
  have "distinct (map fst (d_participants r))"
    using D(1) by (auto simp: record_ok_def intro: entries_sorted_distinct)
  from distinct_filter_single [OF this entry(2)]
  have fil: "filter (\<lambda>x. fst x = p) (d_participants r) = [(p, e)]" by simp
  have "entry_ok (d_transactionId r @ id_separator) (d_decision r) (p, e)"
    using D(1) entry(2) by (auto simp: record_ok_def list_all_iff)
  then have "d_decision r = ROLLBACK \<or> isNonEmptyString (opt_field e)"
    by (auto simp: entry_ok_def split: option.splits)
  then have names: "namesPreparedContent r (binding_of ?c)"
    by (cases e) (auto simp: namesPreparedContent_def Let_def binding_of_def entry(1) fil)
  have "decisionBindingRefusalOf ns h (binding_of ?c) = None"
    using can names r(2) by (simp add: decisionBindingRefusalOf_def binding_of_def)
  moreover have "carriesPinnedIdentity ?c" by (rule built_identity_pinned [OF ident]) simp_all
  ultimately show ?thesis using env by (simp add: isPinnedParticipantCommand_def isPinnedDecision_def)
qed

text \<open>
  C31: The leader only proposes pinned commands. With an identity this partition accepts and an
  execution envelope in form, the \<open>PREPARE\<close> it builds is in the pinned form for any carried texts; the
  \<open>DECISION\<close> it builds from a canonical decision record is, for every participant the record names;
  and the generation origin of any named partition is.
\<close>

theorem leader_commands_are_pinned:
  assumes "identityRefusalOf (identity_carrier i) partitionId = None" "partitionId \<noteq> []"
    and "isExecutionEnvelope (s_executionEnvelope st)"
  shows "isPinnedParticipantCommand ns h (buildPrepareCommand h i ops val st) \<and>
     (\<forall>b r p e. canonicalDecisionRecord ns h b = Some r \<and> d_decisionDigest r \<noteq> [] \<and>
        i_transactionId i = Text (d_transactionId r) \<and> i_participantId i = Text p \<and>
        (p, e) \<in> set (d_participants r) \<longrightarrow>
        isPinnedParticipantCommand ns h
          (buildDecisionCommand i (Text (d_decision r)) (opt_field e) (Text (d_decisionText r))
             (Text (d_decisionDigest r)) st)) \<and>
     isPinnedParticipantCommand ns h (buildGenerationOriginCommand partitionId st)"
proof -
  have "carriesPinnedIdentity (buildPrepareCommand h i ops val st)"
    by (rule built_identity_pinned [OF assms(1,2)]) simp_all
  then have prep: "isPinnedParticipantCommand ns h (buildPrepareCommand h i ops val st)"
    using assms(3) by (simp add: isPinnedParticipantCommand_def isPinnedPrepare_def)
  have orig: "isPinnedParticipantCommand ns h (buildGenerationOriginCommand partitionId st)"
    using assms(2) by (simp add: isPinnedParticipantCommand_def isPinnedGenerationOrigin_def)
  show ?thesis using prep orig built_decision_pinned [OF assms] by blast
qed

definition example_identity :: identity where
  "example_identity = \<lparr>i_sessionId = Null, i_transactionId = Text (js ''t''),
     i_participantId = Text (js ''t:p1''), i_commitMode = Text (js ''2pc''),
     i_transactionEpoch = Some (Num (Fin 1))\<rparr>"

definition example_stamp :: stamp where
  "example_stamp = \<lparr>s_timestamp = Text (js ''1-0-n''), s_proposedBy = Text (js ''n''),
     s_proposedAt = Some (Num (Fin 1)),
     s_executionEnvelope = Some \<lparr>sqliteVersion = Text (js ''3''), sqliteSourceId = Text (js ''s''),
       compileOptionsDigest = Text (js ''c''), classifierListVersion = Text (js ''1'')\<rparr>\<rparr>"

lemma example_identity_ok:
  "identityRefusalOf (identity_carrier example_identity) (js ''p1'') = None" "js ''p1'' \<noteq> []"
  "isExecutionEnvelope (s_executionEnvelope example_stamp)"
  by (simp_all add: identityRefusalOf_None identity_carrier_def example_identity_def participantIdOf_def
      id_separator_def isSafeInteger_def is_safe_int_def max_safe_def example_stamp_def isExecutionEnvelope_def)

theorem leader_commands_are_pinned_witness:
  "isPinnedParticipantCommand (\<lambda>_. []) id
     (buildPrepareCommand id example_identity (js ''[]'') (js ''v'') example_stamp)"
  using leader_commands_are_pinned [OF example_identity_ok] by blast

definition example_record :: decision_record where
  "example_record =
     (let es = js_sort (\<lambda>l r. lex_compare (fst l) (fst r)) example_entries;
          text = stringify (\<lambda>_. []) (decision_json (js ''t'') COMMIT es)
      in \<lparr>d_transactionId = js ''t'', d_decision = COMMIT, d_participants = es,
          d_decisionText = text, d_decisionDigest = text\<rparr>)"

lemma stringify_decision_not_Nil: "stringify ns (decision_json t d es) \<noteq> []"
  by (simp add: decision_json_def)

lemma example_record_fields:
  "d_transactionId example_record = js ''t''" "d_decision example_record = COMMIT"
  "set (d_participants example_record) = set example_entries" "d_decisionDigest example_record \<noteq> []"
  using stringify_decision_not_Nil by (simp_all add: example_record_def Let_def del: js_simps)

definition example_decision :: "string \<Rightarrow> string \<Rightarrow> pcommand" where
  "example_decision p d = buildDecisionCommand (example_identity\<lparr>i_participantId := Text (js p)\<rparr>)
     (Text COMMIT) (Text (js d))
     (Text (d_decisionText example_record)) (Text (d_decisionDigest example_record)) example_stamp"

lemma example_record_built:
  "buildDecisionRecord (\<lambda>_. []) id (js ''t'') COMMIT (Some example_entries) = Some example_record"
proof -
  have "js ''t'' \<noteq> []" by simp
  from buildDecisionRecord_eq [OF this _ example_entries_ok refl, of "\<lambda>_. []" id]
  show ?thesis by (simp add: example_record_def Let_def del: js_simps)
qed

lemma example_decision_pinned:
  assumes "(p, d) = (''t:p1'', ''d1'') \<or> (p, d) = (''t:p2'', ''d2'')"
  shows "isPinnedParticipantCommand (\<lambda>_. []) id (example_decision p d)"
proof -
  let ?i = "example_identity\<lparr>i_participantId := Text (js p)\<rparr>"
  have ident: "identityRefusalOf (identity_carrier ?i) (js (drop 2 p)) = None" "js (drop 2 p) \<noteq> []"
    using assms
    by (auto simp: identityRefusalOf_None identity_carrier_def example_identity_def participantIdOf_def
        id_separator_def isSafeInteger_def is_safe_int_def max_safe_def)
  have entry: "(js p, Some (js d)) \<in> set (d_participants example_record)"
    using assms by (auto simp: example_record_fields example_entries_def)
  have "isPinnedParticipantCommand (\<lambda>_. []) id
     (buildDecisionCommand ?i (Text (d_decision example_record)) (opt_field (Some (js d)))
       (Text (d_decisionText example_record)) (Text (d_decisionDigest example_record)) example_stamp)"
    by (rule built_decision_pinned [OF ident example_identity_ok(3)
          example_record_built [unfolded buildDecisionRecord_def option.case Let_def] _ _ _ entry])
       (simp_all add: example_record_fields example_identity_def)
  then show ?thesis
    by (simp add: example_decision_def example_record_fields)
qed

theorem decision_digest_binds_decision_witness:
  "c_decision (example_decision ''t:p1'' ''d1'') = c_decision (example_decision ''t:p2'' ''d2'')"
  using decision_digest_binds_decision [OF _ example_decision_pinned [of "''t:p1''" "''d1''"]
      example_decision_pinned [of "''t:p2''" "''d2''"]]
  by (simp add: example_decision_def)

subsection \<open>Validation texts\<close>

lemma is_safe_int_of_int [simp]: "is_safe_int (of_int i) \<longleftrightarrow> \<bar>i\<bar> \<le> max_safe"
  by (simp add: is_safe_int_def)

lemma carriedOriginIndexOf_validationTextOf:
  assumes "\<bar>oi\<bar> \<le> max_safe"
  shows "carriedOriginIndexOf (Text (validationTextOf ns h g p oi)) = Some oi"
  using assms unfolding carriedOriginIndexOf_def validationTextOf_def
  by (subst parsedJsonOf_stringify) (simp_all add: int_num_def)

lemma show_int_inject_nonneg: "0 \<le> a \<Longrightarrow> 0 \<le> b \<Longrightarrow> show_int a = show_int b \<longleftrightarrow> a = b"
  by (simp add: show_int_def eq_nat_nat_iff)

definition generation_text :: "int \<Rightarrow> jsstring" where
  "generation_text g = js ''generation:'' @ show_int g"

lemma validationTextOf_inject:
  assumes "inj_on h (generation_text ` {0..})"
    and "0 \<le> g" "g \<le> max_safe" "0 \<le> g'" "g' \<le> max_safe" "\<bar>oi\<bar> \<le> max_safe" "\<bar>oi'\<bar> \<le> max_safe"
    and eq: "validationTextOf ns h g p oi = validationTextOf ns h g' p' oi'"
  shows "g = g' \<and> p = p' \<and> oi = oi'"
proof -
  have "JArr [JArr [JStr (js ''partition''), JStr p, JStr (h (js ''generation:'' @ num_to_string ns (int_num g))),
        JNum (int_num oi)]] =
      JArr [JArr [JStr (js ''partition''), JStr p', JStr (h (js ''generation:'' @ num_to_string ns (int_num g'))),
        JNum (int_num oi')]]"
    by (rule stringify_inject [OF _ _ eq [unfolded validationTextOf_def]])
       (use assms(6,7) in \<open>simp_all add: int_num_def\<close>)
  then have "p = p'" "oi = oi'"
      "h (js ''generation:'' @ num_to_string ns (int_num g)) =
       h (js ''generation:'' @ num_to_string ns (int_num g'))"
    by (simp_all only: json.inject list.inject int_num_def xnum.inject of_int_eq_iff)
  note parts = this
  have nts: "num_to_string ns (int_num g) = show_int g" "num_to_string ns (int_num g') = show_int g'"
    using assms(2-5) by (simp_all add: int_num_def num_to_string_def)
  have "generation_text g = generation_text g'"
    by (rule inj_onD [OF assms(1) parts(3) [unfolded nts, folded generation_text_def]])
       (use assms(2,4) in simp_all)
  then have "show_int g = show_int g'" by (simp only: generation_text_def same_append_eq)
  then show ?thesis using assms(2,4) show_int_inject_nonneg [of g g'] parts(1,2) by blast
qed

text \<open>
  C32: A validation text names its base. The text built for a generation, a partition and an origin
  index is read back with that origin index, and two equal texts were built for the same generation,
  the same partition and the same origin, when the digest function does not collide on generation
  texts. So a \<open>PREPARE\<close> whose text equals the text of the current row was made from the current
  generation.
\<close>

theorem validation_text_names_base:
  assumes "inj_on h (generation_text ` {0..})"
    and "0 \<le> g" "g \<le> max_safe" "0 \<le> g'" "g' \<le> max_safe" "\<bar>oi\<bar> \<le> max_safe" "\<bar>oi'\<bar> \<le> max_safe"
  shows "carriedOriginIndexOf (Text (validationTextOf ns h g p oi)) = Some oi \<and>
     (validationTextOf ns h g p oi = validationTextOf ns h g' p' oi' \<longleftrightarrow> g = g' \<and> p = p' \<and> oi = oi')"
  using validationTextOf_inject [OF assms, of ns p p'] carriedOriginIndexOf_validationTextOf [OF assms(6)]
  by auto

theorem validation_text_names_base_witness:
  "validationTextOf (\<lambda>_. []) id 3 (js ''p'') 7 \<noteq> validationTextOf (\<lambda>_. []) id 4 (js ''p'') 7"
  using validation_text_names_base [of id 3 4 7 7 "\<lambda>_. []" "js ''p''" "js ''p''"]
  by (simp add: max_safe_def del: js_simps)

end
