(* ===== verification/Runs.thy ===== *)
theory Runs
  imports Main
begin

text \<open>
  Runs of a step relation. A component with a step relation and an invariant that every step keeps
  interprets \<open>invariant_system\<close> on them; what one step does then extends to every run.
\<close>

locale invariant_system =
  fixes step :: "'s \<Rightarrow> 's \<Rightarrow> bool"
    and inv :: "'s \<Rightarrow> bool"
  assumes step_inv: "inv s \<Longrightarrow> step s s' \<Longrightarrow> inv s'"
begin

lemma run_inv: "step\<^sup>*\<^sup>* s s' \<Longrightarrow> inv s \<Longrightarrow> inv s'"
  by (induction rule: rtranclp_induct) (auto intro: step_inv)

lemma run_kept:
  assumes "step\<^sup>*\<^sup>* s s'" "inv s" "P s" "\<And>u v. inv u \<Longrightarrow> step u v \<Longrightarrow> P u \<Longrightarrow> P v"
  shows "P s'"
proof -
  have "inv s' \<and> P s'"
    using assms(1) by (induction rule: rtranclp_induct) (use assms(2-4) step_inv in auto)
  then show ?thesis ..
qed

end

end
