(* ===== verification/CdcObligation.thy ===== *)
theory CdcObligation
  imports CdcLedger CdcPolicy Runs
begin

text \<open>
  The committed-entry CDC hook and the application of a committed \<open>CDC_DELIVERED\<close>:
  \<open>src/src/partition/partition-cdc-obligation.js\<close>.

  What the code schedules for after the commit, or logs, is the list of effects an application
  returns, in order. The CDC event generator is the parameter \<open>build\<close>: it reads the partition's data
  and an entry and answers the JSON of the event, or none.

  The lemmas show that an acknowledgement never throws on a well-formed ledger, that it settles
  exactly the events it names or, when refused, changes nothing, and that the standing of a position
  only moves from owed to delivered to reclaimed.
\<close>

datatype committed_outcome =
    APPLIED
  | REPLAYED
  | RECORDED_ONLY
  | STATEMENT_FAILED
  | STATEMENT_ENVIRONMENT_FAILED
  | UNRECOGNISED
  | ENTRY_ID_MISSING_REFUSED
  | RESERVED_REFUSED

subsection \<open>The acknowledgement\<close>

datatype ack_failure =
    ACK_IDENTITY_MISMATCH
  | ACK_BYTES_INVALID
  | IDENTITY_COMPACTED
  | UNKNOWN_EVENT
  | POSITION_MISMATCH

datatype ack_effect =
    EmitEntryCommitted
  | LogIdentityCompacted "position option"
  | LogAcknowledgementAlarm ack_failure "position option"
  | AnswerRefused ack_failure "position option"
  | SettleAcknowledged "jsstring list" "cdc_progress option"
  | LogAcknowledgementApplied nat nat nat
  | AnswerAcknowledged nat nat nat int bool

definition refuseAcknowledgement ::
  "ack_failure \<Rightarrow> position option \<Rightarrow> committed_outcome \<times> ack_effect list"
where
  "refuseAcknowledgement code spot =
     (RECORDED_ONLY,
      [if code = IDENTITY_COMPACTED then LogIdentityCompacted spot else LogAcknowledgementAlarm code spot,
       AnswerRefused code spot])"

text \<open>The members a command names, group by group: position and digest.\<close>

definition ack_members :: "ack_group list \<Rightarrow> (position \<times> jsstring) list" where
  "ack_members groups =
     concat (map (\<lambda>g. map (\<lambda>e. ((g_logIndex g, a_ordinal e), a_eventKeyDigest e)) (g_events g)) groups)"

fun judge_members ::
  "(jsstring \<Rightarrow> jsstring) \<Rightarrow> ledger \<Rightarrow> (position \<times> jsstring) list \<Rightarrow> jsstring list \<Rightarrow> jsstring list \<Rightarrow>
   (ack_failure \<times> position) + (jsstring list \<times> jsstring list)"
where
  "judge_members h l [] owed deliveredEarlier = Inr (owed, deliveredEarlier)"
| "judge_members h l ((p, digest) # ms) owed deliveredEarlier =
     (case readCdcObligationStanding l p of
        (RECLAIMED, _) \<Rightarrow> Inl (IDENTITY_COMPACTED, p)
      | (UNKNOWN, _) \<Rightarrow> Inl (UNKNOWN_EVENT, p)
      | (st, None) \<Rightarrow> Inl (UNKNOWN_EVENT, p)
      | (st, Some row) \<Rightarrow>
          if cdcObligationEventKeyDigest h (o_eventKey row) \<noteq> digest then Inl (POSITION_MISMATCH, p)
          else if st = DELIVERED
          then judge_members h l ms owed (deliveredEarlier @ [o_eventKey row])
          else judge_members h l ms (owed @ [o_eventKey row]) deliveredEarlier)"

definition acknowledgementJudgementOf ::
  "(jsstring \<Rightarrow> jsstring) \<Rightarrow> ledger \<Rightarrow> ack_group list \<Rightarrow>
   (ack_failure \<times> position) + (jsstring list \<times> jsstring list)"
where
  "acknowledgementJudgementOf h l groups = judge_members h l (ack_members groups) [] []"

fun mark_all :: "ledger \<Rightarrow> jsstring list \<Rightarrow> int \<Rightarrow> int \<Rightarrow> ledger_error + ledger" where
  "mark_all l [] index trm = Inr l"
| "mark_all l (key # keys) index trm =
     bindE (markCdcObligationDelivered l key index trm) (\<lambda>l'. mark_all l' keys index trm)"

definition applyCdcAcknowledgementCommand ::
  "(xnum \<Rightarrow> jsstring) \<Rightarrow> (jsstring \<Rightarrow> jsstring) \<Rightarrow> jsstring \<Rightarrow> ack_command \<Rightarrow> int \<Rightarrow> int \<Rightarrow> ledger \<Rightarrow>
   ledger_error + (committed_outcome \<times> ack_effect list \<times> ledger)"
where
  "applyCdcAcknowledgementCommand ns h partitionId c index trm l =
     (let refused = (\<lambda>code spot. let (out, effs) = refuseAcknowledgement code spot
                               in Inr (out, EmitEntryCommitted # effs, l))
      in if k_partitionId c \<noteq> Text partitionId then refused ACK_IDENTITY_MISMATCH None
         else
           (case acknowledgedGroupsOf ns c of
              None \<Rightarrow> refused ACK_BYTES_INVALID None
            | Some groups \<Rightarrow>
                (case acknowledgementJudgementOf h l groups of
                   Inl (code, p) \<Rightarrow> refused code (Some p)
                 | Inr (owed, alreadyDelivered) \<Rightarrow>
                     bindE (mark_all l owed index trm) (\<lambda>l1.
                     bindE (reclaimDeliveredCdcObligations l1 index trm) (\<lambda>(n, l2).
                     Inr (if owed = [] then REPLAYED else APPLIED,
                          [EmitEntryCommitted,
                           SettleAcknowledged (owed @ alreadyDelivered) (readCdcObligationProgress l2),
                           LogAcknowledgementApplied (length owed) (length alreadyDelivered) n,
                           AnswerAcknowledged (length owed) (length alreadyDelivered) n index (owed = [])],
                          l2))))))"

subsection \<open>Capturing and recording events\<close>

text \<open>The part of the partition service the hook reads.\<close>

record cdc_service =
  sv_tableName :: "jsstring option"
  sv_isShutdown :: bool
  sv_subscribers :: nat
  sv_isLeader :: bool

definition partitionOwesCdc :: "cdc_service \<Rightarrow> bool" where
  "partitionOwesCdc sv = isTableCdcObligationRecorded (sv_tableName sv)"

definition partitionHasTransientCdcSubscribers :: "cdc_service \<Rightarrow> bool" where
  "partitionHasTransientCdcSubscribers sv \<longleftrightarrow>
     \<not> partitionOwesCdc sv \<and> \<not> sv_isShutdown sv \<and> 0 < sv_subscribers sv"

text \<open>The command types the application executes as SQL.\<close>

datatype sql_type = WRITE | INSERT | UPDATE | DELETE | UPSERT | QUERY | MIGRATION_ALTER_TABLE

text \<open>The write entry the generator reads one applied operation or statement as.\<close>

record cdc_entry =
  e_type :: sql_type
  e_sql :: jsstring
  e_params :: "json list"
  e_entryId :: field
  e_sessionId :: field
  e_timestamp :: field
  e_proposedBy :: field
  e_proposedAt :: "jsnum option"
  e_changes :: int

fun json_field :: "json option \<Rightarrow> field" where
  "json_field (Some (JStr s)) = Text s"
| "json_field (Some JNull) = Null"
| "json_field _ = Undef"

definition operationEntryOf :: "pcommand \<Rightarrow> operation \<Rightarrow> int \<Rightarrow> cdc_entry" where
  "operationEntryOf c oper changes =
     \<lparr>e_type = QUERY, e_sql = op_sql oper, e_params = op_params oper, e_entryId = json_field (op_entryId oper),
      e_sessionId = c_sessionId c, e_timestamp = c_timestamp c, e_proposedBy = c_proposedBy c,
      e_proposedAt = c_proposedAt c, e_changes = changes\<rparr>"

datatype captured = Transient cdc_entry | Owed obligation

definition owed_event :: "jsstring \<Rightarrow> int \<Rightarrow> int \<Rightarrow> int \<Rightarrow> field \<Rightarrow> jsstring \<Rightarrow> obligation" where
  "owed_event key index trm ordinal entryId json =
     \<lparr>o_eventKey = key, o_logIndex = index, o_term = trm, o_ordinal = ordinal,
      o_entryId = to_text entryId, o_eventJson = json, o_delivered = False, o_deliveredIndex = None,
      o_deliveredTerm = None\<rparr>"

definition captureCommittedOperationCdc ::
  "('d \<Rightarrow> cdc_entry \<Rightarrow> jsstring option) \<Rightarrow> cdc_service \<Rightarrow> 'd \<Rightarrow> pcommand \<Rightarrow> int \<Rightarrow> int \<Rightarrow>
   operation \<Rightarrow> int \<Rightarrow> nat \<Rightarrow> captured option"
where
  "captureCommittedOperationCdc build sv data c index trm oper changes ordinal =
     (if \<not> partitionOwesCdc sv
      then if partitionHasTransientCdcSubscribers sv
           then Some (Transient (operationEntryOf c oper changes)) else None
      else
        (case build data (operationEntryOf c oper changes) of
           None \<Rightarrow> None
         | Some json \<Rightarrow>
             Some (Owed (owed_event (operationOutcomeKeyOf (c_participantId c) ordinal) index trm
               (int ordinal) (c_entryId c) json))))"

datatype cdc_effect =
    TransientEvents nat
  | RecordedEvents nat
  | DriveObligations

fun insert_all :: "ledger \<Rightarrow> obligation list \<Rightarrow> ledger_error + ledger" where
  "insert_all l [] = Inr l"
| "insert_all l (r # rs) = bindE (insertCdcObligation l r) (\<lambda>l'. insert_all l' rs)"

fun owed_of :: "captured list \<Rightarrow> obligation list" where
  "owed_of [] = []"
| "owed_of (Owed r # xs) = r # owed_of xs"
| "owed_of (Transient _ # xs) = owed_of xs"

definition recordCommittedOperationCdc ::
  "cdc_service \<Rightarrow> captured list \<Rightarrow> ledger \<Rightarrow> ledger_error + (nat \<times> cdc_effect list \<times> ledger)"
where
  "recordCommittedOperationCdc sv events l =
     (if \<not> partitionOwesCdc sv
      then Inr (0, (if events = [] \<or> sv_isShutdown sv \<or> sv_subscribers sv = 0 then []
                    else [TransientEvents (length events)]), l)
      else if events = [] then Inr (0, [], l)
      else
        bindE (insert_all (ensureCdcObligationLedger l) (owed_of events)) (\<lambda>l'.
        Inr (length events,
             RecordedEvents (length events) #
               (if sv_isLeader sv \<and> \<not> sv_isShutdown sv then [DriveObligations] else []),
             l')))"

text \<open>
  An ordinary statement's event; its key is the statement's outcome key, its ordinal is zero. The flag
  \<open>snapshot\<close> says that the command copies rows of a snapshot.
\<close>

definition recordCommittedStatementCdc ::
  "('d \<Rightarrow> cdc_entry \<Rightarrow> jsstring option) \<Rightarrow> cdc_service \<Rightarrow> 'd \<Rightarrow> cdc_entry \<Rightarrow> bool \<Rightarrow> int \<Rightarrow> int \<Rightarrow>
   jsstring \<Rightarrow> ledger \<Rightarrow> ledger_error + (nat \<times> cdc_effect list \<times> ledger)"
where
  "recordCommittedStatementCdc build sv data entry snapshot index trm entryKey l =
     (if snapshot then Inr (0, [], l)
      else if \<not> partitionOwesCdc sv
      then Inr (0, (if partitionHasTransientCdcSubscribers sv then [TransientEvents 1] else []), l)
      else
        (case build data entry of
           None \<Rightarrow> Inr (0, [], l)
         | Some json \<Rightarrow>
             recordCommittedOperationCdc sv
               [Owed (owed_event entryKey index trm 0 (e_entryId entry) json)] l))"

subsection \<open>Laws of the acknowledgement\<close>

lemma standing_row:
  assumes "readCdcObligationStanding l p = (st, Some r)"
  shows "r \<in> set (table_rows l)" "position r = p" "st = (if o_delivered r then DELIVERED else OWED)"
  using assms
  by (auto simp: readCdcObligationStanding_def row_at_def find_Some_iff split: if_splits option.splits)

lemma row_at_eq:
  assumes "ledger_ok l" "r \<in> set (table_rows l)"
  shows "row_at l (position r) = Some r"
proof -
  obtain s where s: "row_at l (position r) = Some s"
    using assms(2) by (cases "row_at l (position r)") (auto simp: row_at_def find_None_iff)
  then have "s \<in> set (table_rows l)" "position s = position r"
    by (auto simp: row_at_def find_Some_iff)
  with assms position_inject s show ?thesis by metis
qed

lemma standing_of_row:
  assumes "ledger_ok l" "r \<in> set (table_rows l)"
  shows "readCdcObligationStanding l (position r) = (if o_delivered r then DELIVERED else OWED, Some r)"
  using assms row_at_eq [OF assms] table_rows_exists [OF assms(2)]
  by (simp add: readCdcObligationStanding_def ledger_ok_def)

lemma judge_cons:
  "judge_members h l ((p, digest) # ms) os ds = Inr res \<longleftrightarrow>
     (\<exists>r. readCdcObligationStanding l p = (if o_delivered r then DELIVERED else OWED, Some r) \<and>
        h (o_eventKey r) = digest \<and>
        (if o_delivered r then judge_members h l ms os (ds @ [o_eventKey r]) = Inr res
         else judge_members h l ms (os @ [o_eventKey r]) ds = Inr res))"
proof -
  obtain st ro where s: "readCdcObligationStanding l p = (st, ro)" by fastforce
  show ?thesis
  proof (cases ro)
    case None
    with s show ?thesis by (cases st) auto
  next
    case (Some r)
    with s have "st = (if o_delivered r then DELIVERED else OWED)" by (simp add: standing_row(3))
    with s Some show ?thesis by (auto simp: cdcObligationEventKeyDigest_def)
  qed
qed

lemma judge_accepts:
  assumes "judge_members h l ms os ds = Inr (os', ds')" "distinct (map fst ms)"
  obtains ms_o ms_d where "os' = os @ map o_eventKey ms_o" "ds' = ds @ map o_eventKey ms_d"
    "set ms_o \<subseteq> set (owed_rows l)" "set ms_d \<subseteq> set (filter o_delivered (table_rows l))"
    "position ` set ms_o \<union> position ` set ms_d = fst ` set ms" "distinct (map position ms_o)"
  using assms
proof (induction ms arbitrary: os ds thesis)
  case Nil
  show ?case by (rule Nil.prems(1) [of "[]" "[]"]) (use Nil.prems(2) in simp_all)
next
  case (Cons m ms)
  obtain p digest where m: "m = (p, digest)" by fastforce
  from Cons.prems(2) [unfolded m judge_cons] obtain r where
    r: "readCdcObligationStanding l p = (if o_delivered r then DELIVERED else OWED, Some r)"
    and rest: "if o_delivered r then judge_members h l ms os (ds @ [o_eventKey r]) = Inr (os', ds')
         else judge_members h l ms (os @ [o_eventKey r]) ds = Inr (os', ds')" by blast
  have row: "r \<in> set (table_rows l)" "position r = p" using standing_row [OF r] by auto
  have dist: "distinct (map fst ms)" "p \<notin> fst ` set ms" using Cons.prems(3) by (auto simp: m)
  show ?case
  proof (cases "o_delivered r")
    case True
    with rest have "judge_members h l ms os (ds @ [o_eventKey r]) = Inr (os', ds')" by simp
    from Cons.IH [OF _ this dist(1)] obtain ms_o ms_d where ih: "os' = os @ map o_eventKey ms_o"
      "ds' = (ds @ [o_eventKey r]) @ map o_eventKey ms_d" "set ms_o \<subseteq> set (owed_rows l)"
      "set ms_d \<subseteq> set (filter o_delivered (table_rows l))"
      "position ` set ms_o \<union> position ` set ms_d = fst ` set ms" "distinct (map position ms_o)" by blast
    show ?thesis by (rule Cons.prems(1) [of ms_o "r # ms_d"]) (use ih row True in \<open>auto simp: m\<close>)
  next
    case False
    with rest have "judge_members h l ms (os @ [o_eventKey r]) ds = Inr (os', ds')" by simp
    from Cons.IH [OF _ this dist(1)] obtain ms_o ms_d where ih: "os' = (os @ [o_eventKey r]) @ map o_eventKey ms_o"
      "ds' = ds @ map o_eventKey ms_d" "set ms_o \<subseteq> set (owed_rows l)"
      "set ms_d \<subseteq> set (filter o_delivered (table_rows l))"
      "position ` set ms_o \<union> position ` set ms_d = fst ` set ms" "distinct (map position ms_o)" by blast
    have "p \<notin> position ` set ms_o" using ih(5) dist(2) by blast
    then show ?thesis
      by (intro Cons.prems(1) [of "r # ms_o" ms_d]) (use ih row False in \<open>auto simp: m owed_rows_def is_owed_def\<close>)
  qed
qed

lemma mark_all_spec:
  assumes "ledger_ok l" "set rs \<subseteq> set (owed_rows l)" "distinct (map position rs)"
  obtains l' where "mark_all l (map o_eventKey rs) index trm = Inr l'" "marks_to (o_eventKey ` set rs) l l'"
  using assms
proof (induction rs arbitrary: l thesis)
  case Nil
  then show ?case using marks_to_refl by simp
next
  case (Cons r rs)
  have r: "r \<in> set (owed_rows l)" using Cons.prems(3) by simp
  obtain l1 where l1: "markCdcObligationDelivered l (o_eventKey r) index trm = Inr l1"
      "marks_to {o_eventKey r} l l1"
    by (rule mark_spec [OF Cons.prems(2) r refl])
  have "o_eventKey s \<noteq> o_eventKey r" if "s \<in> set rs" for s
  proof
    assume eq: "o_eventKey s = o_eventKey r"
    have "s \<in> set (table_rows l)" "r \<in> set (table_rows l)" using that r Cons.prems(3) by (auto simp: owed_rows_def)
    with eq Cons.prems(2) have "s = r" by (auto simp: ledger_ok_def distinct_map dest: inj_onD)
    with that Cons.prems(4) show False by auto
  qed
  then have sub: "set rs \<subseteq> set (owed_rows l1)"
    using l1(2) Cons.prems(3) by (auto simp: marks_to_def)
  have "ledger_ok l1" using l1(2) by (simp add: marks_to_def)
  from Cons.IH [OF _ this sub] Cons.prems(4) obtain l' where
    l': "mark_all l1 (map o_eventKey rs) index trm = Inr l'" "marks_to (o_eventKey ` set rs) l1 l'" by auto
  show ?case
    by (rule Cons.prems(1) [of l']) (use l1 l' marks_to_trans [OF l1(2) l'(2)] in simp_all)
qed

lemma isSortedStrictly_distinct: "isSortedStrictly xs \<Longrightarrow> distinct xs"
  by (simp add: isSortedStrictly_def successively_conv_sorted_wrt strict_sorted_iff)

lemma acknowledgedGroupsOfD:
  assumes "acknowledgedGroupsOf ns c = Some groups"
  shows "isSortedStrictly (map g_logIndex groups)"
    and "g \<in> set groups \<Longrightarrow> isSortedStrictly (map a_ordinal (g_events g))"
proof -
  obtain vs where vs: "all_some (map as_group vs) = Some groups" "isSortedStrictly (map g_logIndex groups)"
    using assms by (auto simp: acknowledgedGroupsOf_def split: option.splits json.splits if_splits)
  show "isSortedStrictly (map g_logIndex groups)" by (fact vs(2))
  assume "g \<in> set groups"
  then have "Some g \<in> as_group ` set vs"
    using vs(1) unfolding all_some_Some by (metis image_eqI list.set_map)
  then obtain v where "as_group v = Some g" by auto
  then show "isSortedStrictly (map a_ordinal (g_events g))"
    by (auto simp: as_group_def split: option.splits json.splits if_splits)
qed

lemma ack_members_distinct:
  assumes "isSortedStrictly (map g_logIndex groups)"
    "\<And>g. g \<in> set groups \<Longrightarrow> isSortedStrictly (map a_ordinal (g_events g))"
  shows "distinct (map fst (ack_members groups))"
proof -
  have "distinct (map g_logIndex groups)" by (rule isSortedStrictly_distinct [OF assms(1)])
  then show ?thesis using assms(2)
  proof (induction groups)
    case (Cons g groups)
    have "distinct (map (\<lambda>e. (g_logIndex g, a_ordinal e)) (g_events g))"
      using isSortedStrictly_distinct [of "map a_ordinal (g_events g)"] Cons.prems(2)
      by (auto simp: distinct_map inj_on_def)
    moreover have "fst ` fst ` set (ack_members groups) \<subseteq> g_logIndex ` set groups"
      by (auto simp: ack_members_def)
    ultimately show ?case using Cons by (auto simp: ack_members_def comp_def)
  qed (simp add: ack_members_def)
qed

lemma marks_row:
  assumes "marks_to K l l'" "r \<in> set (table_rows l)"
  obtains r' where "r' \<in> set (table_rows l')" "position r' = position r" "o_eventKey r' = o_eventKey r"
    "o_delivered r' \<longleftrightarrow> o_delivered r \<or> o_eventKey r \<in> K"
proof -
  from assms(2) obtain i where i: "i < length (table_rows l)" "r = table_rows l ! i"
    by (auto simp: in_set_conv_nth)
  have len: "length (table_rows l') = length (table_rows l)"
    using assms(1) unfolding marks_to_def by (metis length_map)
  have pos: "map position (table_rows l') ! i = map position (table_rows l) ! i"
    and key: "map o_eventKey (table_rows l') ! i = map o_eventKey (table_rows l) ! i"
    using assms(1) by (simp_all add: marks_to_def)
  show thesis
  proof (rule that [of "table_rows l' ! i"])
    show "table_rows l' ! i \<in> set (table_rows l')" using i(1) len by simp
    show "position (table_rows l' ! i) = position r" "o_eventKey (table_rows l' ! i) = o_eventKey r"
      using pos key i len by simp_all
    have "map o_delivered (table_rows l') ! i = map (\<lambda>r. o_delivered r \<or> o_eventKey r \<in> K) (table_rows l) ! i"
      using assms(1) by (simp add: marks_to_def)
    then show "o_delivered (table_rows l' ! i) \<longleftrightarrow> o_delivered r \<or> o_eventKey r \<in> K"
      using i len by simp
  qed
qed

lemma reclaims_standing:
  assumes "reclaims_to l l'" "r \<in> set (table_rows l)" "o_delivered r"
  shows "fst (readCdcObligationStanding l' (position r)) \<in> {DELIVERED, RECLAIMED}"
proof (cases "r \<in> set (table_rows l')")
  case True
  with assms(1,3) show ?thesis by (simp add: reclaims_to_def standing_of_row)
next
  case False
  with assms(1,2) have "isCdcPositionReclaimed (position r) (readCdcObligationProgress l')"
    by (simp add: reclaims_to_def)
  then show ?thesis by (simp add: readCdcObligationStanding_def)
qed

text \<open>Everything an accepted acknowledgement does to the ledger.\<close>

lemma accepted_acknowledgement:
  assumes ok: "ledger_ok l" and part: "k_partitionId c = Text partitionId"
    and groups: "acknowledgedGroupsOf ns c = Some groups"
    and judged: "acknowledgementJudgementOf h l groups = Inr (os, ds)"
  obtains l1 l2 n where "mark_all l os index trm = Inr l1" "marks_to (set os) l l1"
    "reclaimDeliveredCdcObligations l1 index trm = Inr (n, l2)" "reclaims_to l1 l2"
    "set os \<subseteq> o_eventKey ` set (owed_rows l)" "card (set os) = length os"
    "applyCdcAcknowledgementCommand ns h partitionId c index trm l =
       Inr (if os = [] then REPLAYED else APPLIED,
            [EmitEntryCommitted, SettleAcknowledged (os @ ds) (readCdcObligationProgress l2),
             LogAcknowledgementApplied (length os) (length ds) n,
             AnswerAcknowledged (length os) (length ds) n index (os = [])], l2)"
    "\<forall>p \<in> fst ` set (ack_members groups). fst (readCdcObligationStanding l2 p) \<in> {DELIVERED, RECLAIMED}"
proof -
  have dist: "distinct (map fst (ack_members groups))"
    by (rule ack_members_distinct) (use acknowledgedGroupsOfD [OF groups] in blast)+
  obtain rs es where rs: "os = map o_eventKey rs" "ds = map o_eventKey es"
      "set rs \<subseteq> set (owed_rows l)" "set es \<subseteq> set (filter o_delivered (table_rows l))"
      "position ` set rs \<union> position ` set es = fst ` set (ack_members groups)" "distinct (map position rs)"
    by (rule judge_accepts [OF judged [unfolded acknowledgementJudgementOf_def] dist]) simp
  obtain l1 where l1: "mark_all l os index trm = Inr l1" "marks_to (o_eventKey ` set rs) l l1"
    unfolding rs(1) by (rule mark_all_spec [OF ok rs(3,6)])
  have ok1: "ledger_ok l1" using l1(2) by (simp add: marks_to_def)
  obtain n l2 where l2: "reclaimDeliveredCdcObligations l1 index trm = Inr (n, l2)" "reclaims_to l1 l2"
    by (rule reclaim_spec [OF ok1])
  have rows: "set rs \<subseteq> set (table_rows l)" using rs(3) by (auto simp: owed_rows_def)
  have "inj_on o_eventKey (set rs)" "distinct rs"
    using ok rows rs(6) by (auto simp: ledger_ok_def distinct_map intro: inj_on_subset)
  then have card: "card (set os) = length os" by (simp add: rs(1) card_image distinct_card)
  have named: "fst (readCdcObligationStanding l2 p) \<in> {DELIVERED, RECLAIMED}"
    if p: "p \<in> fst ` set (ack_members groups)" for p
  proof -
    obtain r where r: "r \<in> set (table_rows l)" "position r = p" "o_delivered r \<or> r \<in> set rs"
      using p rows rs(4) by (auto simp flip: rs(5))
    obtain r' where "r' \<in> set (table_rows l1)" "position r' = position r"
        "o_delivered r' \<longleftrightarrow> o_delivered r \<or> o_eventKey r \<in> o_eventKey ` set rs"
      by (rule marks_row [OF l1(2) r(1)])
    with r(2,3) reclaims_standing [OF l2(2), of r'] show ?thesis by auto
  qed
  show thesis
    by (rule that [of l1 n l2])
       (use l1 l2 card named rs(1,3) in \<open>auto simp: applyCdcAcknowledgementCommand_def Let_def part groups judged\<close>)
qed


subsection \<open>The life of an obligation\<close>

text \<open>
  The ledger under committed entries: each entry has a greater log index than the one before, and
  either records the events of its operations or is an acknowledgement. The state carries the last
  index.
\<close>

definition ledger_state_ok :: "int \<times> ledger \<Rightarrow> bool" where
  "ledger_state_ok s \<longleftrightarrow>
     (case s of (m, l) \<Rightarrow> ledger_ok l \<and> 0 \<le> m \<and> (\<forall>r \<in> set (table_rows l). o_logIndex r \<le> m) \<and>
        (\<forall>g. readCdcObligationProgress l = Some g \<longrightarrow> throughLogIndex g \<le> m))"

inductive ledger_step ::
  "(xnum \<Rightarrow> jsstring) \<Rightarrow> (jsstring \<Rightarrow> jsstring) \<Rightarrow> jsstring \<Rightarrow> cdc_service \<Rightarrow> int \<times> ledger \<Rightarrow> int \<times> ledger \<Rightarrow> bool"
  for ns h partitionId sv
where
  record_events:
    "m < i \<Longrightarrow> i < max_safe \<Longrightarrow> \<forall>r \<in> set (owed_of events). o_logIndex r = i \<Longrightarrow>
     recordCommittedOperationCdc sv events l = Inr (n, effs, l') \<Longrightarrow>
     ledger_step ns h partitionId sv (m, l) (i, l')"
| acknowledge:
    "m < i \<Longrightarrow> i < max_safe \<Longrightarrow>
     applyCdcAcknowledgementCommand ns h partitionId c i trm l = Inr (out, effs, l') \<Longrightarrow>
     ledger_step ns h partitionId sv (m, l) (i, l')"

fun standing_rank :: "standing \<Rightarrow> nat" where
  "standing_rank UNKNOWN = 0"
| "standing_rank OWED = 1"
| "standing_rank DELIVERED = 2"
| "standing_rank RECLAIMED = 3"

lemma insert_all_spec:
  assumes "insert_all l rs = Inr l'" "cdcObligationLedgerExists l"
  shows "table_rows l' = table_rows l @ map as_owed rs \<and>
     readCdcObligationProgress l' = readCdcObligationProgress l \<and>
     (distinct (map o_eventKey (table_rows l)) \<longrightarrow> distinct (map o_eventKey (table_rows l'))) \<and>
     (distinct (map position (table_rows l)) \<longrightarrow> distinct (map position (table_rows l')))"
  using assms
proof (induction rs arbitrary: l)
  case (Cons r rs)
  obtain ts where ts: "l_rows l = Some ts" "table_rows l = ts"
    using Cons.prems(2) by (auto simp: cdcObligationLedgerExists_def table_rows_def)
  obtain l1 where l1: "insertCdcObligation l r = Inr l1" "insert_all l1 rs = Inr l'"
    using Cons.prems(1) by (auto simp: err_simps)
  have fresh: "o_eventKey r \<notin> o_eventKey ` set ts" "position r \<notin> position ` set ts"
    and eq: "l1 = l\<lparr>l_rows := Some (ts @ [as_owed r])\<rparr>"
    using l1(1) by (auto simp: insertCdcObligation_def ts as_owed_def split: if_splits)
  have "cdcObligationLedgerExists l1" by (simp add: eq cdcObligationLedgerExists_def)
  note ih = Cons.IH [OF l1(2) this]
  have rows1: "table_rows l1 = table_rows l @ [as_owed r]"
    and prog1: "readCdcObligationProgress l1 = readCdcObligationProgress l" by (simp_all add: eq ts(2))
  have "distinct (map o_eventKey (table_rows l)) \<longrightarrow> distinct (map o_eventKey (table_rows l1))"
    "distinct (map position (table_rows l)) \<longrightarrow> distinct (map position (table_rows l1))"
    using fresh by (simp_all add: rows1 ts(2))
  moreover have "table_rows l' = table_rows l @ map as_owed (r # rs)" using ih by (simp add: rows1)
  moreover have "readCdcObligationProgress l' = readCdcObligationProgress l" using ih by (simp add: prog1)
  ultimately show ?case using ih by blast
qed simp

lemma position_order:
  "i < j \<Longrightarrow> (i, a) < (j, b :: int)" for i :: int
  by simp

lemma record_ok:
  assumes st: "ledger_state_ok (m, l)" and i: "m < i" "i < max_safe"
    and at: "\<forall>r \<in> set (owed_of events). o_logIndex r = i"
    and rec: "recordCommittedOperationCdc sv events l = Inr (n, effs, l')"
  shows "ledger_state_ok (i, l')"
    and "\<exists>rs. table_rows l' = table_rows l @ rs \<and> (\<forall>r \<in> set rs. is_owed r)"
    and "readCdcObligationProgress l' = readCdcObligationProgress l"
proof -
  have ok: "ledger_ok l" and rows: "\<forall>r \<in> set (table_rows l). o_logIndex r \<le> m" and m: "0 \<le> m"
    and prog: "\<And>g. readCdcObligationProgress l = Some g \<Longrightarrow> throughLogIndex g \<le> m"
    using st by (auto simp: ledger_state_ok_def)
  consider "l' = l" | "insert_all (ensureCdcObligationLedger l) (owed_of events) = Inr l'"
    using rec by (auto simp: recordCommittedOperationCdc_def err_simps split: if_splits)
  then have *: "ledger_state_ok (i, l') \<and> (\<exists>rs. table_rows l' = table_rows l @ rs \<and> (\<forall>r \<in> set rs. is_owed r)) \<and>
      readCdcObligationProgress l' = readCdcObligationProgress l"
  proof cases
    case 1
    then show ?thesis using st i(1) by (force simp: ledger_state_ok_def)
  next
    case 2
    note ins = insert_all_spec [OF this ensure_simps(5), unfolded ensure_simps]
    then have rows': "table_rows l' = table_rows l @ map as_owed (owed_of events)"
      and prog': "readCdcObligationProgress l' = readCdcObligationProgress l" by simp_all
    have new: "FIRST_POSITION < position r \<and> position r < max_position \<and>
        \<not> isCdcPositionReclaimed (position r) (readCdcObligationProgress l)"
      if "r \<in> as_owed ` set (owed_of events)" for r
    proof -
      have li: "o_logIndex r = i" using that at by (auto simp: as_owed_def)
      have "\<not> isCdcPositionReclaimed (position r) (readCdcObligationProgress l)"
        using prog i(1) li
        by (auto simp: isCdcPositionReclaimed_def position_def split: option.splits)
      then show ?thesis using li i m by (simp add: FIRST_POSITION_def max_position_def position_def)
    qed
    have "ledger_ok l'"
      using ok ins new unfolding ledger_ok_def prog' by (auto simp: rows')
    moreover have "\<forall>r \<in> set (table_rows l'). o_logIndex r \<le> i"
      using rows i(1) at by (auto simp: rows' as_owed_def)
    ultimately have "ledger_state_ok (i, l')"
      using m i(1) prog by (force simp: ledger_state_ok_def prog')
    then show ?thesis using rows' prog' by auto
  qed
  then show "ledger_state_ok (i, l')"
    "\<exists>rs. table_rows l' = table_rows l @ rs \<and> (\<forall>r \<in> set rs. is_owed r)"
    "readCdcObligationProgress l' = readCdcObligationProgress l" by auto
qed

lemma standing_append:
  assumes "table_rows l' = table_rows l @ rs" "readCdcObligationProgress l' = readCdcObligationProgress l"
  shows "standing_rank (fst (readCdcObligationStanding l p)) \<le> standing_rank (fst (readCdcObligationStanding l' p))"
proof (cases "isCdcPositionReclaimed p (readCdcObligationProgress l)")
  case True
  then show ?thesis by (simp add: readCdcObligationStanding_def assms(2))
next
  case False
  show ?thesis
  proof (cases "row_at l p")
    case None
    with False show ?thesis by (simp add: readCdcObligationStanding_def)
  next
    case (Some r)
    then have "r \<in> set (table_rows l)" by (auto simp: row_at_def find_Some_iff)
    then have ex: "cdcObligationLedgerExists l" "cdcObligationLedgerExists l'"
      using assms(1) by (auto intro: table_rows_exists)
    from Some have "row_at l' p = Some r"
      unfolding row_at_def assms(1) by (auto simp: find_Some_iff nth_append)
    with Some ex False show ?thesis by (simp add: readCdcObligationStanding_def assms(2))
  qed
qed

lemma standing_marks:
  assumes "marks_to K l l'"  "ledger_ok l"
  shows "standing_rank (fst (readCdcObligationStanding l p)) \<le> standing_rank (fst (readCdcObligationStanding l' p))"
proof (cases "snd (readCdcObligationStanding l p)")
  case None
  then have "fst (readCdcObligationStanding l p) = UNKNOWN \<or> isCdcPositionReclaimed p (readCdcObligationProgress l)"
    by (auto simp: readCdcObligationStanding_def split: option.splits if_splits)
  moreover have "readCdcObligationProgress l' = readCdcObligationProgress l"
    using assms by (simp add: marks_to_def)
  ultimately show ?thesis by (auto simp: readCdcObligationStanding_def)
next
  case (Some r)
  then have s: "readCdcObligationStanding l p = (fst (readCdcObligationStanding l p), Some r)"
    by (metis prod.collapse)
  note r = standing_row [OF s]
  obtain r' where r': "r' \<in> set (table_rows l')" "position r' = position r"
      "o_delivered r' \<longleftrightarrow> o_delivered r \<or> o_eventKey r \<in> K"
    by (rule marks_row [OF assms(1) r(1)])
  have "readCdcObligationStanding l' p = (if o_delivered r' then DELIVERED else OWED, Some r')"
    using standing_of_row [OF _ r'(1)] assms(1) r(2) r'(2) by (simp add: marks_to_def)
  with r(3) r'(3) show ?thesis by auto
qed

lemma standing_reclaims:
  assumes "reclaims_to l l'" "ledger_ok l"
  shows "standing_rank (fst (readCdcObligationStanding l p)) \<le> standing_rank (fst (readCdcObligationStanding l' p))"
proof (cases "isCdcPositionReclaimed p (readCdcObligationProgress l')")
  case True
  then have "fst (readCdcObligationStanding l' p) = RECLAIMED" by (simp add: readCdcObligationStanding_def)
  then show ?thesis by (cases "fst (readCdcObligationStanding l p)") simp_all
next
  case False
  then have not_l: "\<not> isCdcPositionReclaimed p (readCdcObligationProgress l)"
    using assms(1) unfolding reclaims_to_def progress_le_def by blast
  show ?thesis
  proof (cases "row_at l p")
    case None
    with not_l show ?thesis by (simp add: readCdcObligationStanding_def)
  next
    case (Some r)
    then have r: "r \<in> set (table_rows l)" "position r = p" by (auto simp: row_at_def find_Some_iff)
    with False assms(1) have "r \<in> set (table_rows l')" "ledger_ok l'" by (auto simp: reclaims_to_def)
    with r standing_of_row [OF assms(2) r(1)] standing_of_row [of l' r] show ?thesis by simp
  qed
qed

lemma acknowledge_ok:
  assumes st: "ledger_state_ok (m, l)" and i: "m < i" "i < max_safe"
    and ack: "applyCdcAcknowledgementCommand ns h partitionId c i trm l = Inr (out, effs, l')"
  shows "l' = l \<or> (\<exists>K l1. marks_to K l l1 \<and> reclaims_to l1 l')"
proof -
  have ok: "ledger_ok l" using st by (simp add: ledger_state_ok_def)
  show ?thesis
  proof (cases "k_partitionId c = Text partitionId \<and> (\<exists>groups os ds. acknowledgedGroupsOf ns c = Some groups \<and>
      acknowledgementJudgementOf h l groups = Inr (os, ds))")
    case False
    then have "l' = l" using ack
      by (auto simp: applyCdcAcknowledgementCommand_def refuseAcknowledgement_def Let_def
          split: option.splits sum.splits if_splits)
    then show ?thesis by simp
  next
    case True
    then obtain groups os ds where c: "k_partitionId c = Text partitionId"
      "acknowledgedGroupsOf ns c = Some groups" "acknowledgementJudgementOf h l groups = Inr (os, ds)" by blast
    show ?thesis
      by (rule accepted_acknowledgement [OF ok c, of i trm]) (use ack in auto)
  qed
qed

lemma reclaims_state_ok:
  assumes "reclaims_to l l'" "ledger_state_ok (m, l)" "m \<le> i"
  shows "ledger_state_ok (i, l')"
proof -
  have l: "\<forall>r \<in> set (table_rows l). o_logIndex r \<le> m" "0 \<le> m"
    and prog: "\<And>g. readCdcObligationProgress l = Some g \<Longrightarrow> throughLogIndex g \<le> m"
    using assms(2) by (auto simp: ledger_state_ok_def)
  have l': "ledger_ok l'" "set (table_rows l') \<subseteq> set (table_rows l)"
    using assms(1) by (auto simp: reclaims_to_def)
  have "throughLogIndex g \<le> m" if "readCdcObligationProgress l' = Some g" for g
    using assms(1) that prog l(1) unfolding reclaims_to_def by auto
  with l l' assms(3) show ?thesis by (force simp: ledger_state_ok_def)
qed

lemma marks_state_ok:
  assumes "marks_to K l l'" "ledger_state_ok (m, l)"
  shows "ledger_state_ok (m, l')"
proof -
  have "o_logIndex r \<le> m" if r: "r \<in> set (table_rows l')" for r
  proof -
    have "position r \<in> set (map position (table_rows l))"
      using assms(1) r unfolding marks_to_def by (metis image_eqI list.set_map)
    then show ?thesis using assms(2) by (auto simp: position_def ledger_state_ok_def)
  qed
  then show ?thesis using assms by (auto simp: ledger_state_ok_def marks_to_def)
qed

lemma ledger_step_forward:
  assumes "ledger_step ns h partitionId sv s s'" "ledger_state_ok s"
  shows "ledger_state_ok s' \<and>
     standing_rank (fst (readCdcObligationStanding (snd s) p)) \<le>
       standing_rank (fst (readCdcObligationStanding (snd s') p)) \<and>
     (\<forall>r \<in> set (owed_rows (snd s)). r \<in> set (owed_rows (snd s')) \<or>
        fst (readCdcObligationStanding (snd s') (position r)) \<in> {DELIVERED, RECLAIMED})"
  using assms
proof (induction rule: ledger_step.induct)
  case (record_events m i events l n effs l')
  note rec = record_ok [OF record_events(5,1-4)]
  from rec(2) obtain rs where rs: "table_rows l' = table_rows l @ rs" by blast
  then show ?case using rec(1) standing_append [OF rs rec(3)] by (auto simp: owed_rows_def)
next
  case (acknowledge m i c trm l out effs l')
  have ok: "ledger_ok l" using acknowledge(4) by (simp add: ledger_state_ok_def)
  from acknowledge_ok [OF acknowledge(4,1,2,3)] show ?case
  proof
    assume "l' = l"
    then show ?thesis using acknowledge(1,4) by (force simp: ledger_state_ok_def)
  next
    assume "\<exists>K l1. marks_to K l l1 \<and> reclaims_to l1 l'"
    then obtain K l1 where l1: "marks_to K l l1" "reclaims_to l1 l'" by blast
    have ok1: "ledger_ok l1" using l1(1) by (simp add: marks_to_def)
    have st: "ledger_state_ok (i, l')"
      using reclaims_state_ok [OF l1(2) marks_state_ok [OF l1(1) acknowledge(4)]] acknowledge(1) by simp
    have rank: "standing_rank (fst (readCdcObligationStanding l q)) \<le>
        standing_rank (fst (readCdcObligationStanding l' q))" for q
      using standing_marks [OF l1(1) ok, of q] standing_reclaims [OF l1(2) ok1, of q] by (rule order_trans)
    have owed': "owed_rows l' = filter (\<lambda>r. o_eventKey r \<notin> K) (owed_rows l)"
      using l1 by (simp add: marks_to_def reclaims_to_def)
    have "fst (readCdcObligationStanding l' (position r)) \<in> {DELIVERED, RECLAIMED}"
      if r: "r \<in> set (owed_rows l)" "r \<notin> set (owed_rows l')" for r
    proof -
      have "o_eventKey r \<in> K" using r unfolding owed' by simp
      moreover have "r \<in> set (table_rows l)" using r(1) by (simp add: owed_rows_def)
      ultimately obtain r' where "r' \<in> set (table_rows l1)" "position r' = position r" "o_delivered r'"
        by (metis marks_row [OF l1(1)])
      then show ?thesis using reclaims_standing [OF l1(2)] by metis
    qed
    then show ?thesis using st rank by auto
  qed
qed

interpretation ledger_run: invariant_system "ledger_step ns h partitionId sv" ledger_state_ok
  for ns h partitionId sv
  by unfold_locales (use ledger_step_forward in blast)

text \<open>
  C17: An obligation is never lost and never returns. Along any sequence of committed entries that
  record events or acknowledge them, the standing of every position only moves forward, from unknown
  to owed to delivered to reclaimed; and an event that is owed at some point is, later, still owed with
  its recorded payload, or delivered, or reclaimed.
\<close>

theorem obligation_standing_moves_forward:
  assumes "(ledger_step ns h partitionId sv)\<^sup>*\<^sup>* s s'" "ledger_state_ok s"
  shows "ledger_state_ok s' \<and>
     standing_rank (fst (readCdcObligationStanding (snd s) p)) \<le>
       standing_rank (fst (readCdcObligationStanding (snd s') p)) \<and>
     (\<forall>r \<in> set (owed_rows (snd s)). r \<in> set (owed_rows (snd s')) \<or>
        fst (readCdcObligationStanding (snd s') (position r)) \<in> {DELIVERED, RECLAIMED})"
proof
  show "ledger_state_ok s'" by (rule ledger_run.run_inv [OF assms])
  show "standing_rank (fst (readCdcObligationStanding (snd s) p)) \<le>
       standing_rank (fst (readCdcObligationStanding (snd s') p)) \<and>
     (\<forall>r \<in> set (owed_rows (snd s)). r \<in> set (owed_rows (snd s')) \<or>
        fst (readCdcObligationStanding (snd s') (position r)) \<in> {DELIVERED, RECLAIMED})" (is "?P s'")
  proof (rule ledger_run.run_kept [where P = ?P, OF assms])
    fix t u assume ok: "ledger_state_ok t" and step: "ledger_step ns h partitionId sv t u" and ih: "?P t"
    have "fst (readCdcObligationStanding (snd u) (position r)) \<in> {DELIVERED, RECLAIMED}"
      if "fst (readCdcObligationStanding (snd t) (position r)) \<in> {DELIVERED, RECLAIMED}" for r
      using ledger_step_forward [OF step ok, of "position r"] that
      by (cases "fst (readCdcObligationStanding (snd u) (position r))") auto
    then show "?P u" using ledger_step_forward [OF step ok, of p] ih order_trans by blast
  qed simp
qed

definition example_digest :: "jsstring \<Rightarrow> jsstring" where
  "example_digest _ = replicate 64 97"

definition example_row :: obligation where
  "example_row = owed_event (js ''txop:t:p1:0'') 7 1 0 (Text (js ''e'')) (js ''{}'')"

definition example_ledger :: ledger where
  "example_ledger = \<lparr>l_rows = Some [example_row], l_progress = Some None\<rparr>"

definition example_ack :: ack_command where
  "example_ack = buildCdcAcknowledgementCommand (\<lambda>_. []) example_digest (js ''p1'') [example_group] example_stamp"

lemma example_rows [simp]: "table_rows example_ledger = [example_row]"
  "readCdcObligationProgress example_ledger = None" "position example_row = (7, 0)"
  "is_owed example_row" "\<not> o_delivered example_row"
  by (simp_all add: example_ledger_def table_rows_def readCdcObligationProgress_def example_row_def
      owed_event_def position_def is_owed_def)

lemma example_ledger_ok: "ledger_ok example_ledger"
  by (simp add: ledger_ok_def FIRST_POSITION_def max_position_def max_safe_def isCdcPositionReclaimed_def)

lemma example_ack_judged:
  "k_partitionId example_ack = Text (js ''p1'')"
  "acknowledgedGroupsOf (\<lambda>_. []) example_ack = Some [example_group]"
  "acknowledgementJudgementOf example_digest example_ledger [example_group] = Inr ([o_eventKey example_row], [])"
proof -
  show "k_partitionId example_ack = Text (js ''p1'')"
    by (simp add: example_ack_def buildCdcAcknowledgementCommand_def)
  show "acknowledgedGroupsOf (\<lambda>_. []) example_ack = Some [example_group]"
    by (rule acknowledgedGroupsOf_built [OF example_batch_ok])
       (simp add: example_ack_def buildCdcAcknowledgementCommand_def)
  have "readCdcObligationStanding example_ledger (7, 0) = (OWED, Some example_row)"
    using standing_of_row [OF example_ledger_ok, of example_row] by simp
  then show "acknowledgementJudgementOf example_digest example_ledger [example_group] = Inr ([o_eventKey example_row], [])"
    by (simp add: acknowledgementJudgementOf_def ack_members_def example_group_def example_digest_def
        cdcObligationEventKeyDigest_def)
qed


theorem obligation_standing_moves_forward_witness:
  "\<exists>l'. (ledger_step (\<lambda>_. []) example_digest (js ''p1'')
          \<lparr>sv_tableName = Some (js ''nodes''), sv_isShutdown = False, sv_subscribers = 0, sv_isLeader = True\<rparr>)\<^sup>*\<^sup>*
        (8, example_ledger) (9, l') \<and> 1 \<le> standing_rank (fst (readCdcObligationStanding l' (7, 0)))"
proof -
  let ?sv = "\<lparr>sv_tableName = Some (js ''nodes''), sv_isShutdown = False, sv_subscribers = 0, sv_isLeader = True\<rparr>"
  obtain l1 l2 n where "applyCdcAcknowledgementCommand (\<lambda>_. []) example_digest (js ''p1'') example_ack 9 1 example_ledger =
      Inr (if [o_eventKey example_row] = [] then REPLAYED else APPLIED,
            [EmitEntryCommitted, SettleAcknowledged ([o_eventKey example_row] @ []) (readCdcObligationProgress l2),
             LogAcknowledgementApplied (length [o_eventKey example_row]) (length ([] :: jsstring list)) n,
             AnswerAcknowledged (length [o_eventKey example_row]) (length ([] :: jsstring list)) n 9
               ([o_eventKey example_row] = [])], l2)"
    by (rule accepted_acknowledgement [OF example_ledger_ok example_ack_judged, of 9 1]) blast
  then have "ledger_step (\<lambda>_. []) example_digest (js ''p1'') ?sv (8, example_ledger) (9, l2)"
    by (intro acknowledge) (auto simp: max_safe_def)
  then have steps: "(ledger_step (\<lambda>_. []) example_digest (js ''p1'') ?sv)\<^sup>*\<^sup>* (8, example_ledger) (9, l2)" by blast
  have "ledger_state_ok (8, example_ledger)"
    using example_ledger_ok by (simp add: ledger_state_ok_def example_row_def owed_event_def)
  from obligation_standing_moves_forward [OF steps this, of "(7, 0)"] steps show ?thesis
    using standing_of_row [OF example_ledger_ok, of example_row] by (intro exI [of _ l2]) auto
qed

end
