(* ===== verification/CdcGenerator.thy ===== *)
theory CdcGenerator
  imports CdcObligation
begin

text \<open>
  Which applied writes become a CDC event: \<open>determineOperation\<close>, \<open>shouldSuppressNoOpWrite\<close>,
  \<open>resolveEventEnvelope\<close> and \<open>buildEvent\<close> of \<open>src/src/partition/partition-cdc-generator.js\<close>, as the
  committed-entry hook calls them (zero-change writes suppressed). Rendering the event, which reads the
  row and parses the statement, is the parameter \<open>render\<close>; upper-casing is the parameter \<open>uc\<close>.
\<close>

definition js_trim :: "jsstring \<Rightarrow> jsstring" where
  "js_trim s = rev (dropWhile is_js_space (rev (dropWhile is_js_space s)))"

datatype cdc_operation = CDC_INSERT | CDC_UPDATE | CDC_UPSERT | CDC_DELETE

text \<open>The type of a raw statement, from how its text starts.\<close>

definition detected_type :: "(jsstring \<Rightarrow> jsstring) \<Rightarrow> jsstring \<Rightarrow> sql_type" where
  "detected_type uc sql =
     (let sqlUpper = uc (js_trim sql) in
      if is_prefix (uc (js ''INSERT OR REPLACE INTO'')) sqlUpper then UPSERT
      else if is_prefix (js ''INSERT'') sqlUpper then INSERT
      else if is_prefix (js ''UPDATE'') sqlUpper then UPDATE
      else if is_prefix (js ''DELETE'') sqlUpper then DELETE
      else QUERY)"

definition determineOperation :: "(jsstring \<Rightarrow> jsstring) \<Rightarrow> cdc_entry \<Rightarrow> (cdc_operation \<times> sql_type) option" where
  "determineOperation uc entry =
     (let entryType = (if e_type entry = QUERY \<and> e_sql entry \<noteq> [] then detected_type uc (e_sql entry)
                       else e_type entry)
      in case entryType of
           INSERT \<Rightarrow> Some (CDC_INSERT, entryType)
         | UPDATE \<Rightarrow> Some (CDC_UPDATE, entryType)
         | UPSERT \<Rightarrow> Some (CDC_UPSERT, entryType)
         | DELETE \<Rightarrow> Some (CDC_DELETE, entryType)
         | _ \<Rightarrow> None)"

definition shouldSuppressNoOpWrite :: "cdc_entry \<Rightarrow> sql_type \<Rightarrow> bool" where
  "shouldSuppressNoOpWrite entry entryType \<longleftrightarrow>
     \<not> 0 < e_changes entry \<and> entryType \<in> {UPDATE, DELETE, UPSERT, QUERY}"

datatype build_state = BUILT cdc_operation | SKIPPED_NO_OP | SKIPPED_UNSUPPORTED

definition resolveEventEnvelope :: "(jsstring \<Rightarrow> jsstring) \<Rightarrow> cdc_entry \<Rightarrow> build_state" where
  "resolveEventEnvelope uc entry =
     (case determineOperation uc entry of
        None \<Rightarrow> SKIPPED_UNSUPPORTED
      | Some (operation, entryType) \<Rightarrow>
          if shouldSuppressNoOpWrite entry entryType then SKIPPED_NO_OP else BUILT operation)"

definition buildEvent ::
  "(jsstring \<Rightarrow> jsstring) \<Rightarrow> ('d \<Rightarrow> cdc_entry \<Rightarrow> jsstring) \<Rightarrow> 'd \<Rightarrow> cdc_entry \<Rightarrow> jsstring option"
where
  "buildEvent uc render data entry =
     (case resolveEventEnvelope uc entry of BUILT _ \<Rightarrow> Some (render data entry) | _ \<Rightarrow> None)"

end
