(* ===== verification/StatementOutcome.thy ===== *)
theory StatementOutcome
  imports CdcGenerator
begin

text \<open>
  The recorded outcome of committed statements:
  \<open>src/src/partition/partition-committed-statement-outcome.js\<close> with its constants, and the durable
  commit witness of \<open>src/src/partition/partition-write-kernel.js\<close>.

  The outcome table is an insertion-ordered map from entry keys to rows; inserting a key twice is the
  primary key's violation. A statement's failure is the error object the driver or the
  statement-admission owner throws.

  The lemmas show which failures are consumed as the statement's own outcome and that the answer to a
  settled key does not depend on when it is asked.
\<close>

subsection \<open>Errors\<close>

record js_error =
  er_code :: "jsstring option"
  er_name :: jsstring
  er_message :: jsstring
  er_refusalLayer :: "jsstring option"

datatype host_failure =
    OutcomeKeyViolation jsstring
  | StatementEnvironmentFailed js_error
  | DurableCommitWitnessInvalid
  | GenerationRowMissing
  | DecidedUpdateNotOneRow
  | OriginUpdateNotOneRow
  | ParticipantRowViolation
  | LedgerFailure ledger_error
  | SchemaEnforcementUnavailable
  | SettlementFailure
  | CommandRefused committed_outcome

definition failureCodeOf :: "js_error \<Rightarrow> jsstring" where
  "failureCodeOf e = (case er_code e of Some c \<Rightarrow> c | None \<Rightarrow> er_name e)"

definition sqlite_separator :: jschar where
  "sqlite_separator = of_char (CHR ''_'')"

definition sqlitePrimaryCode :: "js_error \<Rightarrow> jsstring option" where
  "sqlitePrimaryCode e =
     (case er_code e of
        None \<Rightarrow> None
      | Some code \<Rightarrow>
          if \<not> is_prefix (js ''SQLITE_'') code then None
          else Some (js_join sqlite_separator (take 2 (js_split sqlite_separator code))))"

definition DETERMINISTIC_SQLITE_CODES :: "jsstring list" where
  "DETERMINISTIC_SQLITE_CODES =
     map js [''SQLITE_CONSTRAINT'', ''SQLITE_ERROR'', ''SQLITE_MISMATCH'', ''SQLITE_RANGE'', ''SQLITE_TOOBIG'']"

definition DETERMINISTIC_BINDING_ERRORS :: "jsstring list" where
  "DETERMINISTIC_BINDING_ERRORS = map js [''RangeError'', ''TypeError'']"

definition STATEMENT_REFUSAL_CODE :: jsstring where
  "STATEMENT_REFUSAL_CODE = js ''partition_write_statement_refused''"

definition isDeterministicStatementFailure :: "js_error \<Rightarrow> bool \<Rightarrow> bool" where
  "isDeterministicStatementFailure e dbOpen \<longleftrightarrow>
     (if er_code e = Some STATEMENT_REFUSAL_CODE then True
      else
        (case sqlitePrimaryCode e of
           Some code \<Rightarrow> code \<in> set DETERMINISTIC_SQLITE_CODES
         | None \<Rightarrow> dbOpen \<and> er_name e \<in> set DETERMINISTIC_BINDING_ERRORS))"

definition statementEnvironmentFailure :: "js_error \<Rightarrow> host_failure" where
  "statementEnvironmentFailure e = StatementEnvironmentFailed e"

definition STATEMENT_REFUSAL_LAYERS :: "jsstring list" where
  "STATEMENT_REFUSAL_LAYERS =
     map js [''statement_kind'', ''rowid_alias'', ''rowid_allocation'', ''rowid_ceiling'',
       ''statement_function'', ''statement_table'', ''statement_conflict'']"

definition refusalLayerFieldOf :: "jsstring option \<Rightarrow> jsstring option \<Rightarrow> jsstring option" where
  "refusalLayerFieldOf code message =
     (let prefix = js ''Statement refused by the partition statement-admission owner: '';
          layer = (case message of
                     Some m \<Rightarrow> if code = Some STATEMENT_REFUSAL_CODE \<and> is_prefix prefix m
                       then drop (length prefix) m else []
                   | None \<Rightarrow> [])
      in if layer \<in> set STATEMENT_REFUSAL_LAYERS then Some layer else None)"

subsection \<open>Keys and rows\<close>

definition isCommittedStatementKeyed :: "field \<Rightarrow> bool" where
  "isCommittedStatementKeyed entryId = isNonEmptyString entryId"

definition committedStatementEntryKey :: "field \<Rightarrow> jsstring option" where
  "committedStatementEntryKey entryId =
     (if isCommittedStatementKeyed entryId then Some (js ''entry:'' @ to_text entryId) else None)"

record statement_result =
  changes :: int
  lastInsertRowid :: "int option"

definition committedStatementResult :: "int \<Rightarrow> int \<Rightarrow> bool \<Rightarrow> statement_result" where
  "committedStatementResult n rowid retainsInsertRowid =
     \<lparr>changes = n, lastInsertRowid = (if retainsInsertRowid \<and> 0 < n then Some rowid else None)\<rparr>"

record outcome_row =
  w_outcome :: committed_outcome
  w_logIndex :: int
  w_term :: int
  w_failureCode :: "jsstring option"
  w_failureMessage :: "jsstring option"
  w_changes :: "int option"
  w_lastInsertRowid :: "int option"
  w_ownerResultText :: "jsstring option"

type_synonym outcome_table = "(jsstring, outcome_row) jsmap"

definition readCommittedStatementOutcome :: "outcome_table \<Rightarrow> jsstring \<Rightarrow> outcome_row option" where
  "readCommittedStatementOutcome table key = jm_get table key"

definition outcome_of ::
  "committed_outcome \<Rightarrow> int \<Rightarrow> int \<Rightarrow> js_error option \<Rightarrow> statement_result option \<Rightarrow> jsstring option \<Rightarrow> outcome_row"
where
  "outcome_of out index trm err result owner =
     \<lparr>w_outcome = out, w_logIndex = index, w_term = trm,
      w_failureCode = map_option failureCodeOf err, w_failureMessage = map_option er_message err,
      w_changes = map_option changes result,
      w_lastInsertRowid = (case result of None \<Rightarrow> None | Some r \<Rightarrow> lastInsertRowid r),
      w_ownerResultText = owner\<rparr>"

definition recordCommittedStatementOutcome ::
  "outcome_table \<Rightarrow> jsstring \<Rightarrow> outcome_row \<Rightarrow> host_failure + outcome_table"
where
  "recordCommittedStatementOutcome table key row =
     (if jm_get table key \<noteq> None then Inl (OutcomeKeyViolation key) else Inr (jm_set key row table))"

datatype settled_replay = OutcomeRetained int "int option" | OutcomeNotRetained

definition settledAppliedResult :: "outcome_row \<Rightarrow> settled_replay" where
  "settledAppliedResult r =
     (case w_changes r of None \<Rightarrow> OutcomeNotRetained | Some n \<Rightarrow> OutcomeRetained n (w_lastInsertRowid r))"

subsection \<open>The durable commit witness\<close>

definition normalizeCommitWitnessString :: "field \<Rightarrow> jsstring" where
  "normalizeCommitWitnessString f = (case f of Text s \<Rightarrow> js_trim s | _ \<Rightarrow> [])"

text \<open>The optional fields \<open>operationId\<close> and \<open>idempotencyKey\<close> of a command are left out.\<close>

record commit_witness =
  cw_partitionId :: jsstring
  cw_leaderNodeId :: jsstring
  cw_leaderReplicaId :: jsstring
  cw_term :: int
  cw_logIndex :: int
  cw_entryId :: jsstring

definition buildDurableCommitWitness ::
  "jsstring \<Rightarrow> jsstring \<Rightarrow> field \<Rightarrow> int \<Rightarrow> int \<Rightarrow> field \<Rightarrow> host_failure + commit_witness"
where
  "buildDurableCommitWitness partitionId leaderNodeId leaderReplicaId trm index entryId =
     (let identity = \<lparr>cw_partitionId = js_trim partitionId, cw_leaderNodeId = js_trim leaderNodeId,
            cw_leaderReplicaId = normalizeCommitWitnessString leaderReplicaId, cw_term = trm,
            cw_logIndex = index, cw_entryId = normalizeCommitWitnessString entryId\<rparr>
      in if cw_partitionId identity \<noteq> [] \<and> cw_leaderNodeId identity \<noteq> [] \<and>
            cw_leaderReplicaId identity \<noteq> [] \<and> cw_entryId identity \<noteq> [] \<and>
            0 \<le> trm \<and> trm \<le> max_safe \<and> 0 < index \<and> index \<le> max_safe
         then Inr identity else Inl DurableCommitWitnessInvalid)"

subsection \<open>Answers\<close>

record write_identity =
  wi_logIndex :: int
  wi_originHlc :: "jsstring option"
  wi_witness :: "commit_witness option"

datatype write_answer =
    AppliedAnswer int "int option" write_identity
  | SettledAnswer settled_replay write_identity
  | FailedAnswer "jsstring option" "jsstring option" "jsstring option" write_identity
  | ReservedAnswer
  | CapacityAnswer bool

definition origin_hlc :: "field \<Rightarrow> jsstring option" where
  "origin_hlc timestamp = (case timestamp of Text t \<Rightarrow> if t = [] then None else Some t | _ \<Rightarrow> None)"

text \<open>The identity of the replica that answers.\<close>

record replica =
  rp_partitionId :: jsstring
  rp_nodeId :: jsstring
  rp_replicaId :: jsstring

definition answerSettledStatement ::
  "replica \<Rightarrow> outcome_row \<Rightarrow> field \<Rightarrow> field \<Rightarrow> host_failure + write_answer"
where
  "answerSettledStatement rp recorded entryId timestamp =
     (let sat = \<lparr>wi_logIndex = w_logIndex recorded, wi_originHlc = origin_hlc timestamp, wi_witness = None\<rparr> in
      if w_outcome recorded = APPLIED
      then
        (if isNonEmptyString entryId
         then bindE (buildDurableCommitWitness (rp_partitionId rp) (rp_nodeId rp) (Text (rp_replicaId rp))
                (w_term recorded) (w_logIndex recorded) entryId)
                (\<lambda>cw. Inr (SettledAnswer (settledAppliedResult recorded) (sat\<lparr>wi_witness := Some cw\<rparr>)))
         else Inr (SettledAnswer (settledAppliedResult recorded) sat))
      else Inr (FailedAnswer (w_failureCode recorded) (w_failureMessage recorded)
             (refusalLayerFieldOf (w_failureCode recorded) (w_failureMessage recorded)) sat))"

definition buildCommittedWriteIdentity ::
  "replica \<Rightarrow> field \<Rightarrow> field \<Rightarrow> field \<Rightarrow> int \<Rightarrow> int \<Rightarrow> host_failure + write_identity"
where
  "buildCommittedWriteIdentity rp entryId timestamp proposedBy index trm =
     (let ident = \<lparr>wi_logIndex = index, wi_originHlc = origin_hlc timestamp, wi_witness = None\<rparr> in
      if proposedBy \<noteq> Text (rp_replicaId rp) then Inr ident
      else bindE (buildDurableCommitWitness (rp_partitionId rp) (rp_nodeId rp) proposedBy trm index entryId)
             (\<lambda>cw. Inr (ident\<lparr>wi_witness := Some cw\<rparr>)))"

end
