(* ===== verification/ParticipantStore.thy ===== *)
theory ParticipantStore
  imports StatementOutcome
begin

text \<open>
  The durable state of a partition's participant transactions:
  \<open>src/src/partition/partition-participant-transaction-store.js\<close> over the tables of
  \<open>src/src/partition/partition-participant-transaction-constants.js\<close>, and the admission of work that
  owes CDC events, \<open>src/src/partition/partition-cdc-owed-admission.js\<close>, which reads it.

  \<open>'d pdb\<close> is the partition's database: the participant rows, the generation row, the outcome table,
  the obligation ledger and the application data \<open>'d\<close>, which only statements read and write.
\<close>

subsection \<open>Rows\<close>

datatype ptx_state = PREPARED | COMMITTED | ROLLED_BACK | REFUSED | ABSENT | ACTIVE | PREPARING

datatype refusal_cause =
    DIGEST_INVALID
  | ORIGIN_MISMATCH
  | CONFLICT
  | STATEMENT_FAILED_CAUSE
  | ROWID_CEILING
  | COMMIT_BASE_MOVED
  | COMMIT_STATEMENT_FAILED

record ptx_row =
  r_transactionId :: jsstring
  r_participantId :: jsstring
  r_sessionId :: "jsstring option"
  r_commitMode :: jsstring
  r_transactionEpoch :: int
  r_state :: ptx_state
  r_operationsText :: "jsstring option"
  r_validationText :: "jsstring option"
  r_preparedDigest :: "jsstring option"
  r_prepareEntryId :: "jsstring option"
  r_prepareIndex :: "int option"
  r_prepareTerm :: "int option"
  r_decision :: "jsstring option"
  r_decisionDigest :: "jsstring option"
  r_decisionEntryId :: "jsstring option"
  r_decisionIndex :: "int option"
  r_decisionTerm :: "int option"
  r_refusalCause :: "refusal_cause option"
  r_refusalDetail :: "jsstring option"

record gen_row =
  g_generation :: int
  g_origin :: "(int \<times> int) option"

record 'd pdb =
  pd_rows :: "ptx_row list"
  pd_generation :: "gen_row option"
  pd_outcomes :: outcome_table
  pd_ledger :: ledger
  pd_data :: 'd

datatype commit_outcome = OutcomeCommitted | OutcomeNotCommitted | OutcomeUnknown

fun OUTCOME_OF_STATE :: "ptx_state \<Rightarrow> commit_outcome" where
  "OUTCOME_OF_STATE PREPARED = OutcomeUnknown"
| "OUTCOME_OF_STATE COMMITTED = OutcomeCommitted"
| "OUTCOME_OF_STATE ROLLED_BACK = OutcomeNotCommitted"
| "OUTCOME_OF_STATE REFUSED = OutcomeNotCommitted"
| "OUTCOME_OF_STATE _ = OutcomeUnknown"

subsection \<open>Generation and origin\<close>

text \<open>The open hook creates the tables and inserts the generation row unless it is there.\<close>

definition openParticipantTransactionStore :: "'d pdb \<Rightarrow> 'd pdb" where
  "openParticipantTransactionStore db =
     db\<lparr>pd_generation := Some (case pd_generation db of
          None \<Rightarrow> \<lparr>g_generation = 0, g_origin = None\<rparr>
        | Some g \<Rightarrow> g)\<rparr>"

definition generationRowOf :: "'d pdb \<Rightarrow> host_failure + gen_row" where
  "generationRowOf db =
     (case pd_generation db of None \<Rightarrow> Inl GenerationRowMissing | Some g \<Rightarrow> Inr g)"

definition readPartitionWriteGeneration :: "'d pdb \<Rightarrow> host_failure + int" where
  "readPartitionWriteGeneration db = bindE (generationRowOf db) (\<lambda>g. Inr (g_generation g))"

definition readPartitionWriteOrigin :: "'d pdb \<Rightarrow> host_failure + (int \<times> int) option" where
  "readPartitionWriteOrigin db = bindE (generationRowOf db) (\<lambda>g. Inr (g_origin g))"

definition recordPartitionWriteOrigin :: "'d pdb \<Rightarrow> int \<Rightarrow> int \<Rightarrow> host_failure + 'd pdb" where
  "recordPartitionWriteOrigin db index trm =
     (case pd_generation db of
        Some g \<Rightarrow>
          if g_origin g = None
          then Inr (db\<lparr>pd_generation := Some \<lparr>g_generation = 0, g_origin = Some (index, trm)\<rparr>\<rparr>)
          else Inl OriginUpdateNotOneRow
      | None \<Rightarrow> Inl OriginUpdateNotOneRow)"

definition advancePartitionWriteGeneration :: "'d pdb \<Rightarrow> host_failure + 'd pdb" where
  "advancePartitionWriteGeneration db =
     (case pd_generation db of
        Some g \<Rightarrow> Inr (db\<lparr>pd_generation := Some (g\<lparr>g_generation := g_generation g + 1\<rparr>)\<rparr>)
      | None \<Rightarrow> Inl GenerationRowMissing)"

subsection \<open>Participant rows\<close>

definition isPartitionReserved :: "'d pdb \<Rightarrow> bool" where
  "isPartitionReserved db \<longleftrightarrow> (\<exists>r \<in> set (pd_rows db). r_state r = PREPARED)"

definition isParticipantSessionPrepared :: "'d pdb \<Rightarrow> jsstring \<Rightarrow> bool" where
  "isParticipantSessionPrepared db sessionId \<longleftrightarrow>
     (\<exists>r \<in> set (pd_rows db). r_sessionId r = Some sessionId \<and> r_state r = PREPARED)"

definition readPreparedParticipantIds :: "'d pdb \<Rightarrow> jsstring list" where
  "readPreparedParticipantIds db = map r_participantId (filter (\<lambda>r. r_state r = PREPARED) (pd_rows db))"

definition has_key :: "jsstring \<Rightarrow> jsstring \<Rightarrow> ptx_row \<Rightarrow> bool" where
  "has_key t p r \<longleftrightarrow> r_transactionId r = t \<and> r_participantId r = p"

text \<open>A missing or \<open>null\<close> identifier is bound as \<open>NULL\<close>, which equals no column.\<close>

definition readParticipantTransactionRow :: "'d pdb \<Rightarrow> field \<Rightarrow> field \<Rightarrow> ptx_row option" where
  "readParticipantTransactionRow db transactionId participantId =
     (case (transactionId, participantId) of
        (Text t, Text p) \<Rightarrow> List.find (has_key t p) (pd_rows db)
      | _ \<Rightarrow> None)"

definition textOrNull :: "field \<Rightarrow> jsstring option" where
  "textOrNull f = (case f of Text s \<Rightarrow> Some s | _ \<Rightarrow> None)"

definition insertParticipantTransactionRow :: "'d pdb \<Rightarrow> ptx_row \<Rightarrow> host_failure + 'd pdb" where
  "insertParticipantTransactionRow db row =
     (if \<exists>r \<in> set (pd_rows db). has_key (r_transactionId row) (r_participantId row) r
      then Inl ParticipantRowViolation
      else Inr (db\<lparr>pd_rows := pd_rows db @ [row]\<rparr>))"

record decided =
  dc_state :: ptx_state
  dc_decision :: "jsstring option"
  dc_decisionDigest :: "jsstring option"
  dc_decisionEntryId :: "jsstring option"
  dc_decisionIndex :: int
  dc_decisionTerm :: int
  dc_refusalCause :: "refusal_cause option"
  dc_refusalDetail :: "jsstring option"

definition decide_row :: "decided \<Rightarrow> ptx_row \<Rightarrow> ptx_row" where
  "decide_row d r =
     r\<lparr>r_state := dc_state d, r_decision := dc_decision d, r_decisionDigest := dc_decisionDigest d,
       r_decisionEntryId := dc_decisionEntryId d, r_decisionIndex := Some (dc_decisionIndex d),
       r_decisionTerm := Some (dc_decisionTerm d), r_refusalCause := dc_refusalCause d,
       r_refusalDetail := dc_refusalDetail d\<rparr>"

definition updateParticipantTransactionDecided ::
  "'d pdb \<Rightarrow> jsstring \<Rightarrow> jsstring \<Rightarrow> decided \<Rightarrow> host_failure + 'd pdb"
where
  "updateParticipantTransactionDecided db t p d =
     (let hit = (\<lambda>r. has_key t p r \<and> r_state r = PREPARED) in
      if length (filter hit (pd_rows db)) \<noteq> 1 then Inl DecidedUpdateNotOneRow
      else Inr (db\<lparr>pd_rows := map (\<lambda>r. if hit r then decide_row d r else r) (pd_rows db)\<rparr>))"

record row_answer =
  ra_durable :: bool
  ra_state :: ptx_state
  ra_outcome :: commit_outcome
  ra_preparedDigest :: "jsstring option"
  ra_prepareIndex :: "int option"
  ra_prepareTerm :: "int option"
  ra_decisionIndex :: "int option"
  ra_decisionTerm :: "int option"
  ra_refusalCause :: "refusal_cause option"

definition participantOutcomeOf :: "ptx_row option \<Rightarrow> ptx_state \<Rightarrow> row_answer" where
  "participantOutcomeOf row volatileState =
     (case row of
        None \<Rightarrow> \<lparr>ra_durable = False, ra_state = volatileState, ra_outcome = OutcomeUnknown,
          ra_preparedDigest = None, ra_prepareIndex = None, ra_prepareTerm = None,
          ra_decisionIndex = None, ra_decisionTerm = None, ra_refusalCause = None\<rparr>
      | Some r \<Rightarrow> \<lparr>ra_durable = True, ra_state = r_state r, ra_outcome = OUTCOME_OF_STATE (r_state r),
          ra_preparedDigest = r_preparedDigest r, ra_prepareIndex = r_prepareIndex r,
          ra_prepareTerm = r_prepareTerm r, ra_decisionIndex = r_decisionIndex r,
          ra_decisionTerm = r_decisionTerm r, ra_refusalCause = r_refusalCause r\<rparr>)"

subsection \<open>The history of the generation origin\<close>

text \<open>
  The retained log as the store observes it; positions are decimal texts there and integers here.
\<close>

datatype entry_kind = ENTRY_COMMAND | ENTRY_NOOP | ENTRY_OTHER

datatype entry_phase = ENTRY_APPLIED | ENTRY_COMMITTED_PENDING | ENTRY_LOCAL_UNCOMMITTED

record history_entry =
  h_kind :: entry_kind
  h_phase :: entry_phase
  h_command :: "pcommand option"
  h_index :: int
  h_term :: int

record history =
  h_complete :: bool
  h_entries :: "history_entry list"

datatype origin_state =
    ORIGIN_CONTRARY_ROW
  | ORIGIN_CONTRARY_COMMAND
  | ORIGIN_CONTRARY_POSITION
  | ORIGIN_UNAVAILABLE
  | ORIGIN_APPLIED
  | ORIGIN_COMMITTED_PENDING
  | ORIGIN_LOCAL_PENDING
  | ORIGIN_PRE_ORIGIN

definition is_origin_entry :: "history_entry \<Rightarrow> bool" where
  "is_origin_entry e \<longleftrightarrow> h_kind e = ENTRY_COMMAND \<and>
     (case h_command e of Some c \<Rightarrow> c_type c = PARTICIPANT_GENERATION_ORIGIN | None \<Rightarrow> False)"

record origin_ranges =
  or_origins :: "history_entry list"
  or_appliedCommands :: "history_entry list"
  or_committedPending :: "history_entry list"
  or_locallyUncommitted :: "history_entry list"
  or_unclassifiedEntries :: "history_entry list"

definition originRanges :: "history \<Rightarrow> origin_ranges" where
  "originRanges hist =
     (let origins = filter is_origin_entry (h_entries hist) in
      \<lparr>or_origins = origins,
       or_appliedCommands = filter (\<lambda>e. h_phase e = ENTRY_APPLIED) origins,
       or_committedPending = filter (\<lambda>e. h_phase e = ENTRY_COMMITTED_PENDING) origins,
       or_locallyUncommitted = filter (\<lambda>e. h_phase e = ENTRY_LOCAL_UNCOMMITTED) origins,
       or_unclassifiedEntries =
         filter (\<lambda>e. h_kind e \<noteq> ENTRY_NOOP \<and> \<not> is_origin_entry e) (h_entries hist)\<rparr>)"

definition validOriginRow :: "gen_row \<Rightarrow> bool" where
  "validOriginRow g \<longleftrightarrow> 0 \<le> g_generation g \<and>
     (case g_origin g of None \<Rightarrow> True | Some (i, t) \<Rightarrow> 0 < i \<and> 0 < t)"

definition originStateOf :: "(int \<times> int) option \<Rightarrow> origin_ranges \<Rightarrow> origin_state" where
  "originStateOf appliedOrigin ranges =
     (let agrees = (case appliedOrigin of
            None \<Rightarrow> or_appliedCommands ranges = []
          | Some (i, t) \<Rightarrow> or_appliedCommands ranges \<noteq> [] \<and>
              h_index (hd (or_appliedCommands ranges)) = i \<and> h_term (hd (or_appliedCommands ranges)) = t)
      in if \<not> agrees then ORIGIN_CONTRARY_POSITION
         else if appliedOrigin \<noteq> None then ORIGIN_APPLIED
         else if or_committedPending ranges \<noteq> [] then ORIGIN_COMMITTED_PENDING
         else if or_locallyUncommitted ranges \<noteq> [] then ORIGIN_LOCAL_PENDING
         else ORIGIN_PRE_ORIGIN)"

definition originHistoryOf :: "(xnum \<Rightarrow> jsstring) \<Rightarrow> history \<Rightarrow> gen_row \<Rightarrow> jsstring \<Rightarrow> origin_state" where
  "originHistoryOf ns hist g partitionId =
     (if \<not> validOriginRow g then ORIGIN_CONTRARY_ROW
      else
        (let ranges = originRanges hist in
         if \<exists>e \<in> set (or_origins ranges).
              \<not> (case h_command e of
                   Some c \<Rightarrow> isCanonicalRetainedGenerationOrigin ns c partitionId
                 | None \<Rightarrow> False)
         then ORIGIN_CONTRARY_COMMAND
         else if \<not> h_complete hist then ORIGIN_UNAVAILABLE
         else originStateOf (g_origin g) ranges))"

subsection \<open>Admission of work that owes CDC events\<close>

datatype cdc_admission = CDC_ADMITTED | CDC_TEMPORARY | CDC_UNSATISFIABLE

definition operations_length :: "field \<Rightarrow> nat" where
  "operations_length f = (case operationsOf f of Some os \<Rightarrow> length os | None \<Rightarrow> 0)"

text \<open>
  The slots a command needs. A \<open>PREPARE\<close> needs one per operation unless its row exists; another
  transaction command needs none; a statement needs one unless it alters the table or copies a
  snapshot.
\<close>

definition prepare_slots :: "cdc_service \<Rightarrow> 'd pdb \<Rightarrow> pcommand \<Rightarrow> nat" where
  "prepare_slots sv db c =
     (if \<not> partitionOwesCdc sv then 0
      else if readParticipantTransactionRow db (c_transactionId c) (c_participantId c) \<noteq> None then 0
      else operations_length (c_operationsText c))"

definition statement_slots :: "cdc_service \<Rightarrow> bool \<Rightarrow> bool \<Rightarrow> nat" where
  "statement_slots sv altersTable snapshot =
     (if \<not> partitionOwesCdc sv \<or> altersTable \<or> snapshot then 0 else 1)"

definition admitCdcOwedWork :: "ledger \<Rightarrow> nat \<Rightarrow> cdc_admission" where
  "admitCdcOwedWork l required =
     (if required = 0 then CDC_ADMITTED
      else if OWED_MAX_EVENTS < required then CDC_UNSATISFIABLE
      else if n_owed (countCdcObligations l) + required \<le> OWED_MAX_EVENTS then CDC_ADMITTED
      else CDC_TEMPORARY)"

datatype drain_class = DRAIN_ACKNOWLEDGEMENT | DRAIN_PREPARED_DECISION | DRAIN_ORDINARY

definition decision_drain_class :: "'d pdb \<Rightarrow> pcommand \<Rightarrow> drain_class" where
  "decision_drain_class db c =
     (if c_type c \<noteq> PARTICIPANT_DECISION then DRAIN_ORDINARY
      else
        (case readParticipantTransactionRow db (c_transactionId c) (c_participantId c) of
           Some r \<Rightarrow> if r_state r = PREPARED \<and> decisionMatchesPreparedRow c (r_preparedDigest r)
             then DRAIN_PREPARED_DECISION else DRAIN_ORDINARY
         | None \<Rightarrow> DRAIN_ORDINARY))"

end
