(* ===== verification/Settlement.thy ===== *)
theory Settlement
  imports CdcLedger
begin

text \<open>
  The settlement of coordinator rows:
  \<open>src/src/query/distributed/distributed-transaction-settlement.js\<close> with the participant manifest and
  the decision record it reads (\<open>distributed-transaction-participant-manifest.js\<close>,
  \<open>distributed-transaction-decision-record.js\<close>), and the command that carries a settlement,
  \<open>src/src/partition/partition-coordinator-settlement-command.js\<close>.

  \<open>tx_row\<close> holds the columns of \<open>sql_transactions\<close> the settlement reads or writes. A settlement is a JSON
  object, as the log carries it; JSON text never holds a negative zero that \<open>JSON.stringify\<close> wrote, and
  the model does not tell it from zero.

  The lemmas show that a settlement only ever adds a \<open>ROLLBACK\<close>, never changes a recorded decision, and
  that a repeated settlement answers the same record without changing a row.
\<close>

subsection \<open>Rows, manifests, decision records\<close>

record tx_row =
  t_transactionId :: jsstring
  t_sessionId :: "jsstring option"
  t_transactionEpoch :: "int option"
  t_status :: "jsstring option"
  t_participantSetState :: "jsstring option"
  t_participantSetText :: "jsstring option"
  t_commitMode :: "jsstring option"
  t_frozenParticipantCount :: "int option"
  t_decision :: "jsstring option"
  t_decisionText :: "jsstring option"
  t_decisionDigest :: "jsstring option"

text \<open>A JavaScript set keeps the first of equal members.\<close>

definition js_distinct :: "'a list \<Rightarrow> 'a list" where
  "js_distinct xs = rev (remdups (rev xs))"

definition pair_json :: "jsstring \<times> jsstring \<Rightarrow> json" where
  "pair_json p = JArr [JStr (fst p), JStr (snd p)]"

definition participantSetTextOf :: "(xnum \<Rightarrow> jsstring) \<Rightarrow> jsstring \<Rightarrow> jsstring list \<Rightarrow> jsstring" where
  "participantSetTextOf ns transactionId partitionIds =
     stringify ns (JArr (map (\<lambda>p. pair_json (participantIdOf (Text transactionId) p, p))
       (js_sort lex_compare (js_distinct partitionIds))))"

definition as_pair :: "jsstring \<Rightarrow> json \<Rightarrow> (jsstring \<times> jsstring) option" where
  "as_pair transactionId v =
     (case v of
        JArr [JStr i, JStr p] \<Rightarrow>
          if p \<noteq> [] \<and> i = participantIdOf (Text transactionId) p then Some (i, p) else None
      | _ \<Rightarrow> None)"

definition readParticipantSet ::
  "(xnum \<Rightarrow> jsstring) \<Rightarrow> jsstring \<Rightarrow> field \<Rightarrow> (jsstring \<times> jsstring) list option"
where
  "readParticipantSet ns transactionId f =
     (case f of
        Text s \<Rightarrow>
          (case json_parse s of
             Some (JArr vs) \<Rightarrow>
               (case all_some (map (as_pair transactionId) vs) of
                  Some pairs \<Rightarrow>
                    if participantSetTextOf ns transactionId (map snd pairs) = s then Some pairs else None
                | None \<Rightarrow> None)
           | _ \<Rightarrow> None)
      | _ \<Rightarrow> None)"

datatype recorded = RecordedAbsent | RecordedInvalid jsstring | Recorded decision_record

definition row_binding :: "tx_row \<Rightarrow> binding" where
  "row_binding row =
     \<lparr>b_transactionId = Text (t_transactionId row), b_participantId = Undef,
      b_decision = opt_field (t_decision row), b_preparedDigest = Undef,
      b_decisionText = opt_field (t_decisionText row), b_decisionDigest = opt_field (t_decisionDigest row)\<rparr>"

definition decisionRecordOfRow ::
  "(xnum \<Rightarrow> jsstring) \<Rightarrow> (jsstring \<Rightarrow> jsstring) \<Rightarrow> tx_row \<Rightarrow> jsstring option \<Rightarrow> recorded"
where
  "decisionRecordOfRow ns h row expected =
     (if t_decision row = None \<and> t_decisionText row = None \<and> t_decisionDigest row = None
      then RecordedAbsent
      else
        (case canonicalDecisionRecord ns h (row_binding row) of
           None \<Rightarrow> RecordedInvalid (t_transactionId row)
         | Some r \<Rightarrow>
             if expected \<noteq> None \<and> Some (t_transactionId row) \<noteq> expected
             then RecordedInvalid (t_transactionId row) else Recorded r))"

subsection \<open>Settlement commands\<close>

definition FREEZE :: jsstring where
  "FREEZE = js ''FREEZE''"

definition DECIDE :: jsstring where
  "DECIDE = js ''DECIDE''"

definition PROGRESS :: jsstring where
  "PROGRESS = js ''PROGRESS''"

definition BASE_FIELDS :: "jsstring list" where
  "BASE_FIELDS = map js [''kind'', ''transactionId'', ''sessionId'', ''transactionEpoch'', ''participantSetText'']"

text \<open>
  \<open>Object.hasOwn\<close> turns the kind into a property name: an array of one element becomes the name of its
  element. \<open>None\<close> stands for a name that is none of the kinds.
\<close>

fun property_key :: "json \<Rightarrow> jsstring option" where
  "property_key (JStr s) = Some s"
| "property_key (JArr [v]) = property_key v"
| "property_key _ = None"

definition EXTRA_FIELDS :: "json \<Rightarrow> jsstring list option" where
  "EXTRA_FIELDS kind =
     (if property_key kind = Some FREEZE then Some []
      else if property_key kind = Some DECIDE
      then Some (map js [''decision'', ''decisionText'', ''decisionDigest''])
      else if property_key kind = Some PROGRESS then Some (map js [''decisionDigest'', ''status''])
      else None)"

fun own_field :: "json option \<Rightarrow> field" where
  "own_field None = Undef"
| "own_field (Some (JStr s)) = Text s"
| "own_field (Some _) = Null"

record settlement =
  x_json :: json
  x_kind :: json
  x_transactionId :: jsstring
  x_sessionId :: jsstring
  x_transactionEpoch :: int
  x_participantSetText :: jsstring
  x_decision :: field
  x_decisionText :: field
  x_decisionDigest :: field
  x_status :: field

definition isCanonicalTransactionEpoch :: "json option \<Rightarrow> bool" where
  "isCanonicalTransactionEpoch v \<longleftrightarrow>
     (case v of Some (JNum (Fin q)) \<Rightarrow> is_safe_int q \<and> 0 \<le> q | _ \<Rightarrow> False)"

definition sameDecisionSet :: "decision_record \<Rightarrow> (jsstring \<times> jsstring) list \<Rightarrow> bool" where
  "sameDecisionSet r pairs \<longleftrightarrow> map fst (d_participants r) = map fst pairs"

definition data_binding :: "json \<Rightarrow> binding" where
  "data_binding v =
     \<lparr>b_transactionId = own_field (get_prop v (js ''transactionId'')), b_participantId = Undef,
      b_decision = own_field (get_prop v (js ''decision'')), b_preparedDigest = Undef,
      b_decisionText = own_field (get_prop v (js ''decisionText'')),
      b_decisionDigest = own_field (get_prop v (js ''decisionDigest''))\<rparr>"

definition hex_text :: "nat \<Rightarrow> field \<Rightarrow> bool" where
  "hex_text n f \<longleftrightarrow> (case f of Text s \<Rightarrow> length s = n \<and> list_all is_lower_hex s | _ \<Rightarrow> False)"

definition COMMIT_STATUSES :: "jsstring list" where
  "COMMIT_STATUSES = map js [''COMMITTING'', ''COMMITTED'']"

definition ROLLBACK_STATUSES :: "jsstring list" where
  "ROLLBACK_STATUSES = map js [''ROLLING_BACK'', ''ROLLED_BACK'']"

definition own_keys :: "json \<Rightarrow> jsstring list option" where
  "own_keys v = (case v of JObj ps \<Rightarrow> Some (map fst ps) | _ \<Rightarrow> None)"

definition canonicalTransactionSettlement ::
  "(xnum \<Rightarrow> jsstring) \<Rightarrow> (jsstring \<Rightarrow> jsstring) \<Rightarrow> json \<Rightarrow> settlement option"
where
  "canonicalTransactionSettlement ns h v =
     (case (own_keys v, get_prop v (js ''kind'')) of
        (Some names, Some kind) \<Rightarrow>
          (case EXTRA_FIELDS kind of
             None \<Rightarrow> None
           | Some extra \<Rightarrow>
               (let keys = BASE_FIELDS @ extra; get = (\<lambda>k. own_field (get_prop v (js k))) in
                if length names \<noteq> length keys \<or> \<not> list_all (\<lambda>k. k \<in> set names) keys \<or>
                   \<not> hex_text 32 (get ''transactionId'') \<or> \<not> isNonEmptyString (get ''sessionId'') \<or>
                   \<not> isCanonicalTransactionEpoch (get_prop v (js ''transactionEpoch''))
                then None
                else
                  (case readParticipantSet ns (to_text (get ''transactionId'')) (get ''participantSetText'') of
                     None \<Rightarrow> None
                   | Some pairs \<Rightarrow>
                       if kind = JStr DECIDE \<and>
                          (case canonicalDecisionRecord ns h (data_binding v) of
                             None \<Rightarrow> True
                           | Some r \<Rightarrow> \<not> sameDecisionSet r pairs)
                       then None
                       else if kind = JStr PROGRESS \<and>
                          (\<not> hex_text 64 (get ''decisionDigest'') \<or>
                           get ''status'' \<notin> Text ` set (COMMIT_STATUSES @ ROLLBACK_STATUSES))
                       then None
                       else Some
                         \<lparr>x_json = JObj (map (\<lambda>k. (k, the (get_prop v k))) keys), x_kind = kind,
                          x_transactionId = to_text (get ''transactionId''),
                          x_sessionId = to_text (get ''sessionId''),
                          x_transactionEpoch =
                            (case get_prop v (js ''transactionEpoch'') of Some (JNum (Fin q)) \<Rightarrow> \<lfloor>q\<rfloor> | _ \<Rightarrow> 0),
                          x_participantSetText = to_text (get ''participantSetText''),
                          x_decision = get ''decision'', x_decisionText = get ''decisionText'',
                          x_decisionDigest = get ''decisionDigest'', x_status = get ''status''\<rparr>)))
      | _ \<Rightarrow> None)"

record settlement_bytes =
  y_command :: settlement
  y_commandText :: jsstring
  y_commandDigest :: jsstring
  y_entryId :: jsstring

definition transactionSettlementBytes ::
  "(xnum \<Rightarrow> jsstring) \<Rightarrow> (jsstring \<Rightarrow> jsstring) \<Rightarrow> json \<Rightarrow> settlement_bytes option"
where
  "transactionSettlementBytes ns h v =
     (case canonicalTransactionSettlement ns h v of
        None \<Rightarrow> None
      | Some c \<Rightarrow>
          (let commandText = stringify ns (x_json c) in
           Some \<lparr>y_command = c, y_commandText = commandText, y_commandDigest = h commandText,
             y_entryId = js ''tx-coordinator-settlement:v1:'' @ h commandText\<rparr>))"

subsection \<open>Results\<close>

datatype settlement_outcome =
    SETTLE_READY
  | SETTLE_APPLIED
  | SETTLE_REPLAYED
  | SETTLE_REFUSED
  | SETTLE_ALREADY_RECORDED
  | SETTLE_UNAVAILABLE

datatype settlement_reason =
    REASON_INVALID
  | REASON_MISSING
  | REASON_LEGACY
  | REASON_IDENTITY
  | REASON_SET
  | REASON_PHASE
  | REASON_COMMIT
  | REASON_DECISION
  | REASON_BINDING
  | REASON_CAS
  | REASON_READ

record settlement_result =
  sr_outcome :: settlement_outcome
  sr_reason :: "settlement_reason option"
  sr_record :: "recorded option"

definition settled :: "settlement_outcome \<Rightarrow> recorded option \<Rightarrow> settlement_result" where
  "settled out record = \<lparr>sr_outcome = out, sr_reason = None, sr_record = record\<rparr>"

definition settle_refused :: "settlement_reason \<Rightarrow> settlement_result" where
  "settle_refused reason = \<lparr>sr_outcome = SETTLE_REFUSED, sr_reason = Some reason, sr_record = None\<rparr>"

definition validFrozenRow :: "tx_row \<Rightarrow> nat \<Rightarrow> bool" where
  "validFrozenRow row n \<longleftrightarrow> t_participantSetState row = Some (js ''FROZEN'') \<and>
     t_commitMode row = Some (js ''TWO_PHASE_COMMIT'') \<and> t_frozenParticipantCount row = Some (int n)"

definition progressRefusal :: "settlement \<Rightarrow> decision_record \<Rightarrow> bool" where
  "progressRefusal c r \<longleftrightarrow>
     (let allowed = (if d_decision r = COMMIT then COMMIT_STATUSES else ROLLBACK_STATUSES) in
      x_decisionDigest c \<noteq> Text (d_decisionDigest r) \<or> x_status c \<notin> Text ` set allowed)"

definition final_status :: "decision_record \<Rightarrow> jsstring" where
  "final_status r = (if d_decision r = COMMIT then js ''COMMITTED'' else js ''ROLLED_BACK'')"

definition validateTransactionSettlement ::
  "(xnum \<Rightarrow> jsstring) \<Rightarrow> (jsstring \<Rightarrow> jsstring) \<Rightarrow> json \<Rightarrow> tx_row option \<Rightarrow> settlement_result"
where
  "validateTransactionSettlement ns h v found =
     (case canonicalTransactionSettlement ns h v of
        None \<Rightarrow> settle_refused REASON_INVALID
      | Some c \<Rightarrow>
     (case found of
        None \<Rightarrow> settle_refused REASON_MISSING
      | Some row \<Rightarrow>
          if t_transactionId row \<noteq> x_transactionId c \<or> t_sessionId row \<noteq> Some (x_sessionId c) \<or>
             t_transactionEpoch row \<noteq> Some (x_transactionEpoch c)
          then settle_refused REASON_IDENTITY
          else
     (case readParticipantSet ns (t_transactionId row) (opt_field (t_participantSetText row)) of
        None \<Rightarrow> settle_refused REASON_LEGACY
      | Some pairs \<Rightarrow>
          if t_participantSetText row \<noteq> Some (x_participantSetText c) then settle_refused REASON_SET
          else
            (let rec = decisionRecordOfRow ns h row (Some (x_transactionId c));
                 frozen = validFrozenRow row (length pairs)
             in if (case rec of RecordedInvalid _ \<Rightarrow> True | Recorded r \<Rightarrow> \<not> sameDecisionSet r pairs
                      | RecordedAbsent \<Rightarrow> False)
                then settle_refused REASON_DECISION
                else if x_kind c = JStr FREEZE
                then (if frozen then settled SETTLE_REPLAYED (Some rec)
                      else if t_participantSetState row = Some (js ''OPEN'') \<and>
                              t_commitMode row = Some (js ''NOT_SELECTED'') \<and>
                              t_frozenParticipantCount row = Some 0 \<and> rec = RecordedAbsent
                      then settled SETTLE_READY None else settle_refused REASON_PHASE)
                else if \<not> frozen then settle_refused REASON_PHASE
                else if x_kind c = JStr DECIDE
                then (case rec of
                        Recorded r \<Rightarrow>
                          settled (if Text (d_decisionText r) = x_decisionText c \<and>
                                      Text (d_decisionDigest r) = x_decisionDigest c
                                   then SETTLE_REPLAYED else SETTLE_ALREADY_RECORDED) (Some rec)
                      | _ \<Rightarrow>
                          if x_decision c = Text ROLLBACK then settled SETTLE_READY None
                          else settle_refused REASON_COMMIT)
                else
                  (case rec of
                     Recorded r \<Rightarrow>
                       if progressRefusal c r then settle_refused REASON_BINDING
                       else settled (if opt_field (t_status row) = x_status c \<or>
                                        t_status row = Some (final_status r)
                                     then SETTLE_REPLAYED else SETTLE_READY) (Some rec)
                   | _ \<Rightarrow> settle_refused REASON_BINDING)))))"

text \<open>\<open>None\<close> for the rows is a read that throws.\<close>

definition find_transaction :: "tx_row list \<Rightarrow> jsstring \<Rightarrow> tx_row option" where
  "find_transaction rows t = List.find (\<lambda>r. t_transactionId r = t) rows"

definition observeTransactionSettlement ::
  "(xnum \<Rightarrow> jsstring) \<Rightarrow> (jsstring \<Rightarrow> jsstring) \<Rightarrow> tx_row list option \<Rightarrow> json \<Rightarrow> settlement_result"
where
  "observeTransactionSettlement ns h rows v =
     (case canonicalTransactionSettlement ns h v of
        None \<Rightarrow> settle_refused REASON_INVALID
      | Some c \<Rightarrow>
          (case rows of
             None \<Rightarrow> \<lparr>sr_outcome = SETTLE_UNAVAILABLE, sr_reason = Some REASON_READ, sr_record = None\<rparr>
           | Some rs \<Rightarrow> validateTransactionSettlement ns h (x_json c) (find_transaction rs (x_transactionId c))))"

text \<open>
  The condition of the three updates. \<open>=\<close> is not true of \<open>NULL\<close>, \<open>IS\<close> compares it.
\<close>

definition ROW_WHERE :: "tx_row \<Rightarrow> tx_row \<Rightarrow> bool" where
  "ROW_WHERE row r \<longleftrightarrow>
     t_transactionId r = t_transactionId row \<and>
     t_sessionId r = t_sessionId row \<and> t_sessionId row \<noteq> None \<and>
     t_transactionEpoch r = t_transactionEpoch row \<and> t_transactionEpoch row \<noteq> None \<and>
     t_participantSetText r = t_participantSetText row \<and> t_participantSetText row \<noteq> None \<and>
     t_participantSetState r = t_participantSetState row \<and> t_participantSetState row \<noteq> None \<and>
     t_decision r = t_decision row \<and> t_decisionText r = t_decisionText row \<and>
     t_decisionDigest r = t_decisionDigest row"

definition field_text :: "field \<Rightarrow> jsstring option" where
  "field_text f = (case f of Text s \<Rightarrow> Some s | _ \<Rightarrow> None)"

definition settlement_update :: "(xnum \<Rightarrow> jsstring) \<Rightarrow> settlement \<Rightarrow> tx_row \<Rightarrow> tx_row" where
  "settlement_update ns c r =
     (if x_kind c = JStr FREEZE
      then r\<lparr>t_participantSetState := Some (js ''FROZEN''), t_commitMode := Some (js ''TWO_PHASE_COMMIT''),
             t_frozenParticipantCount := map_option (\<lambda>ps. int (length ps))
               (readParticipantSet ns (x_transactionId c) (Text (x_participantSetText c)))\<rparr>
      else if x_kind c = JStr DECIDE
      then r\<lparr>t_decision := field_text (x_decision c), t_decisionText := field_text (x_decisionText c),
             t_decisionDigest := field_text (x_decisionDigest c)\<rparr>
      else r\<lparr>t_status := field_text (x_status c)\<rparr>)"

definition applyTransactionSettlement ::
  "(xnum \<Rightarrow> jsstring) \<Rightarrow> (jsstring \<Rightarrow> jsstring) \<Rightarrow> tx_row list \<Rightarrow> json \<Rightarrow> settlement_result \<times> tx_row list"
where
  "applyTransactionSettlement ns h rows v =
     (case canonicalTransactionSettlement ns h v of
        None \<Rightarrow> (settle_refused REASON_INVALID, rows)
      | Some c \<Rightarrow>
          (let found = find_transaction rows (x_transactionId c);
               admitted = validateTransactionSettlement ns h (x_json c) found
           in case found of
                Some row \<Rightarrow>
                  if sr_outcome admitted \<noteq> SETTLE_READY then (admitted, rows)
                  else
                    (let rows' = map (\<lambda>r. if ROW_WHERE row r then settlement_update ns c r else r) rows in
                     (if length (filter (ROW_WHERE row) rows) = 1
                      then settled SETTLE_APPLIED
                        (Some (case find_transaction rows' (x_transactionId c) of
                                 Some r \<Rightarrow> decisionRecordOfRow ns h r None
                               | None \<Rightarrow> RecordedAbsent))
                      else settle_refused REASON_CAS, rows'))
              | None \<Rightarrow> (admitted, rows)))"

subsection \<open>Results as retained text\<close>

fun outcome_name :: "settlement_outcome \<Rightarrow> jsstring" where
  "outcome_name SETTLE_READY = js ''ready''"
| "outcome_name SETTLE_APPLIED = js ''applied''"
| "outcome_name SETTLE_REPLAYED = js ''replayed''"
| "outcome_name SETTLE_REFUSED = js ''refused''"
| "outcome_name SETTLE_ALREADY_RECORDED = js ''already_recorded''"
| "outcome_name SETTLE_UNAVAILABLE = js ''unavailable''"

fun reason_name :: "settlement_reason \<Rightarrow> jsstring" where
  "reason_name REASON_INVALID = js ''invalid_command''"
| "reason_name REASON_MISSING = js ''row_absent''"
| "reason_name REASON_LEGACY = js ''legacy_participant_set''"
| "reason_name REASON_IDENTITY = js ''identity_conflict''"
| "reason_name REASON_SET = js ''participant_set_conflict''"
| "reason_name REASON_PHASE = js ''phase_conflict''"
| "reason_name REASON_COMMIT = js ''new_commit_forbidden''"
| "reason_name REASON_DECISION = js ''recorded_decision_invalid''"
| "reason_name REASON_BINDING = js ''decision_binding_conflict''"
| "reason_name REASON_CAS = js ''conditional_update_conflict''"
| "reason_name REASON_READ = js ''row_unavailable''"

definition all_outcomes :: "settlement_outcome list" where
  "all_outcomes = [SETTLE_READY, SETTLE_APPLIED, SETTLE_REPLAYED, SETTLE_REFUSED, SETTLE_ALREADY_RECORDED,
     SETTLE_UNAVAILABLE]"

definition all_reasons :: "settlement_reason list" where
  "all_reasons = [REASON_INVALID, REASON_MISSING, REASON_LEGACY, REASON_IDENTITY, REASON_SET, REASON_PHASE,
     REASON_COMMIT, REASON_DECISION, REASON_BINDING, REASON_CAS, REASON_READ]"

definition named_outcome :: "json option \<Rightarrow> settlement_outcome option" where
  "named_outcome v = List.find (\<lambda>x. v = Some (JStr (outcome_name x))) all_outcomes"

definition named_reason :: "json option \<Rightarrow> settlement_reason option" where
  "named_reason v = List.find (\<lambda>x. v = Some (JStr (reason_name x))) all_reasons"

definition recorded_json :: "recorded \<Rightarrow> json" where
  "recorded_json rec =
     (case rec of
        RecordedAbsent \<Rightarrow> JObj [(js ''state'', JStr (js ''absent''))]
      | RecordedInvalid t \<Rightarrow> JObj [(js ''state'', JStr (js ''invalid'')), (js ''transactionId'', JStr t)]
      | Recorded r \<Rightarrow>
          JObj [(js ''state'', JStr (js ''recorded'')), (js ''transactionId'', JStr (d_transactionId r)),
            (js ''decision'', JStr (d_decision r)),
            (js ''participants'', JArr (map entry_json (d_participants r))),
            (js ''decisionText'', JStr (d_decisionText r)),
            (js ''decisionDigest'', JStr (d_decisionDigest r))])"

definition result_json :: "settlement_result \<Rightarrow> json" where
  "result_json r =
     JObj [(js ''outcome'', JStr (outcome_name (sr_outcome r))),
       (js ''reason'', case sr_reason r of None \<Rightarrow> JNull | Some x \<Rightarrow> JStr (reason_name x)),
       (js ''recordedDecision'', case sr_record r of None \<Rightarrow> JNull | Some x \<Rightarrow> recorded_json x)]"

definition RECORDED_FIELDS :: "jsstring list" where
  "RECORDED_FIELDS = map js [''state'', ''transactionId'', ''decision'', ''participants'', ''decisionText'',
     ''decisionDigest'']"

definition canonicalRecordedResult ::
  "(xnum \<Rightarrow> jsstring) \<Rightarrow> (jsstring \<Rightarrow> jsstring) \<Rightarrow> json \<Rightarrow> recorded option"
where
  "canonicalRecordedResult ns h v =
     (case own_keys v of
        None \<Rightarrow> None
      | Some names \<Rightarrow>
          if get_prop v (js ''state'') = Some (JStr (js ''absent'')) \<and> length names = 1
          then Some RecordedAbsent
          else if get_prop v (js ''state'') \<noteq> Some (JStr (js ''recorded'')) \<or>
                  length names \<noteq> length RECORDED_FIELDS \<or> \<not> list_all (\<lambda>k. k \<in> set names) RECORDED_FIELDS
          then None
          else
            (case canonicalDecisionRecord ns h (data_binding v) of
               None \<Rightarrow> None
             | Some r \<Rightarrow>
                 if get_prop v (js ''participants'') = Some (JArr (map entry_json (d_participants r)))
                 then Some (Recorded r) else None))"

definition canonicalTransactionSettlementResult ::
  "(xnum \<Rightarrow> jsstring) \<Rightarrow> (jsstring \<Rightarrow> jsstring) \<Rightarrow> json \<Rightarrow> settlement_result option"
where
  "canonicalTransactionSettlementResult ns h v =
     (let fields = map js [''outcome'', ''reason'', ''recordedDecision'']; reason = get_prop v (js ''reason'');
          rd = get_prop v (js ''recordedDecision'') in
      case (own_keys v, named_outcome (get_prop v (js ''outcome''))) of
        (Some names, Some out) \<Rightarrow>
          if length names \<noteq> 3 \<or> \<not> list_all (\<lambda>k. k \<in> set names) fields then None
          else
            (let rec = (case rd of Some d \<Rightarrow> if d = JNull then None else canonicalRecordedResult ns h d
                          | None \<Rightarrow> None)
             in if rd \<noteq> Some JNull \<and> rec = None then None
                else if out = SETTLE_REFUSED \<or> out = SETTLE_UNAVAILABLE
                then (let valid = (if out = SETTLE_UNAVAILABLE then named_reason reason = Some REASON_READ
                                   else named_reason reason \<noteq> None \<and> named_reason reason \<noteq> Some REASON_READ)
                      in if valid \<and> rec = None
                         then Some \<lparr>sr_outcome = out, sr_reason = named_reason reason, sr_record = None\<rparr>
                         else None)
                else if reason \<noteq> Some JNull \<or> (out = SETTLE_READY \<and> rec \<noteq> None) \<or>
                        (out = SETTLE_ALREADY_RECORDED \<and> (case rec of Some (Recorded _) \<Rightarrow> False | _ \<Rightarrow> True))
                then None
                else Some (settled out rec))
      | _ \<Rightarrow> None)"

subsection \<open>The command\<close>

text \<open>\<open>sc_extraFields\<close> counts the own properties besides the nine fields; the type is the log command's.\<close>

record settlement_command =
  sc_entryId :: field
  sc_partitionId :: field
  sc_settlement :: "json option"
  sc_settlementText :: field
  sc_settlementDigest :: field
  sc_timestamp :: field
  sc_proposedBy :: field
  sc_proposedAt :: "jsnum option"
  sc_extraFields :: nat

definition buildCoordinatorSettlementCommand ::
  "(xnum \<Rightarrow> jsstring) \<Rightarrow> (jsstring \<Rightarrow> jsstring) \<Rightarrow> jsstring \<Rightarrow> stamp \<Rightarrow> json \<Rightarrow> settlement_command option"
where
  "buildCoordinatorSettlementCommand ns h partitionId st input =
     (case transactionSettlementBytes ns h input of
        None \<Rightarrow> None
      | Some y \<Rightarrow> Some
          \<lparr>sc_entryId = Text (y_entryId y), sc_partitionId = Text partitionId,
           sc_settlement = Some (x_json (y_command y)), sc_settlementText = Text (y_commandText y),
           sc_settlementDigest = Text (y_commandDigest y), sc_timestamp = s_timestamp st,
           sc_proposedBy = s_proposedBy st, sc_proposedAt = s_proposedAt st, sc_extraFields = 0\<rparr>)"

definition is_finite_num :: "jsnum option \<Rightarrow> bool" where
  "is_finite_num x \<longleftrightarrow> (case x of Some (Num (Fin _)) \<Rightarrow> True | _ \<Rightarrow> False)"

definition hasRequiredSettlementHeader :: "settlement_command \<Rightarrow> bool" where
  "hasRequiredSettlementHeader c \<longleftrightarrow>
     sc_extraFields c = 0 \<and> sc_entryId c \<noteq> Undef \<and> sc_settlement c \<noteq> None \<and> sc_settlementText c \<noteq> Undef \<and>
     sc_settlementDigest c \<noteq> Undef \<and> isNonEmptyString (sc_partitionId c) \<and> is_text (sc_timestamp c) \<and>
     is_text (sc_proposedBy c) \<and> is_finite_num (sc_proposedAt c)"

definition isPinnedCoordinatorSettlementCommand ::
  "(xnum \<Rightarrow> jsstring) \<Rightarrow> (jsstring \<Rightarrow> jsstring) \<Rightarrow> settlement_command \<Rightarrow> bool"
where
  "isPinnedCoordinatorSettlementCommand ns h c \<longleftrightarrow>
     hasRequiredSettlementHeader c \<and>
     (case sc_settlement c of
        None \<Rightarrow> False
      | Some v \<Rightarrow>
          (case transactionSettlementBytes ns h v of
             None \<Rightarrow> False
           | Some y \<Rightarrow> sc_entryId c = Text (y_entryId y) \<and> sc_settlementText c = Text (y_commandText y) \<and>
               sc_settlementDigest c = Text (y_commandDigest y)))"

subsection \<open>Canonical settlements\<close>

lemma settlement_keys_distinct: "EXTRA_FIELDS kind = Some extra \<Longrightarrow> distinct (BASE_FIELDS @ extra)"
  by (auto simp: EXTRA_FIELDS_def BASE_FIELDS_def split: if_splits simp del: js_simps)

lemma canonical_cong:
  assumes "\<And>k. get_prop v k = get_prop v' k" "own_keys v = Some names" "own_keys v' = Some names'"
    and "length names = length names'" "set names = set names'"
  shows "canonicalTransactionSettlement ns h v = canonicalTransactionSettlement ns h v'"
proof -
  have eq: "get_prop v = get_prop v'" by (rule ext) (rule assms(1))
  show ?thesis
    unfolding canonicalTransactionSettlement_def data_binding_def eq assms(2-5) prod.case option.case ..
qed

lemma own_keys_get_prop: "own_keys v = Some names \<Longrightarrow> get_prop v k = None \<longleftrightarrow> k \<notin> set names"
  by (cases v) (auto simp: own_keys_def map_of_eq_None_iff image_iff Bex_def)

text \<open>What the canonical reader has checked.\<close>

lemma canonicalD:
  assumes "canonicalTransactionSettlement ns h v = Some c"
  obtains names extra pairs where "own_keys v = Some names" "get_prop v (js ''kind'') = Some (x_kind c)"
    "EXTRA_FIELDS (x_kind c) = Some extra" "length names = length (BASE_FIELDS @ extra)"
    "set (BASE_FIELDS @ extra) \<subseteq> set names"
    "x_json c = JObj (map (\<lambda>k. (k, the (get_prop v k))) (BASE_FIELDS @ extra))"
    "own_field (get_prop v (js ''transactionId'')) = Text (x_transactionId c)"
    "readParticipantSet ns (x_transactionId c) (Text (x_participantSetText c)) = Some pairs"
    "x_kind c = JStr DECIDE \<longrightarrow>
       (\<exists>r. canonicalDecisionRecord ns h (data_binding v) = Some r \<and> sameDecisionSet r pairs)"
    "x_decision c = own_field (get_prop v (js ''decision''))"
    "x_decisionText c = own_field (get_prop v (js ''decisionText''))"
    "x_decisionDigest c = own_field (get_prop v (js ''decisionDigest''))"
    "x_status c = own_field (get_prop v (js ''status''))"
proof -
  let ?f = "\<lambda>k. own_field (get_prop v (js k))"
  obtain names kind extra pairs where k: "own_keys v = Some names" "get_prop v (js ''kind'') = Some kind"
      "EXTRA_FIELDS kind = Some extra" "length names = length (BASE_FIELDS @ extra)"
      "list_all (\<lambda>k. k \<in> set names) (BASE_FIELDS @ extra)" "hex_text 32 (?f ''transactionId'')"
      "readParticipantSet ns (to_text (?f ''transactionId'')) (?f ''participantSetText'') = Some pairs"
      "kind = JStr DECIDE \<longrightarrow> (\<exists>r. canonicalDecisionRecord ns h (data_binding v) = Some r \<and> sameDecisionSet r pairs)"
      "c = \<lparr>x_json = JObj (map (\<lambda>k. (k, the (get_prop v k))) (BASE_FIELDS @ extra)), x_kind = kind,
         x_transactionId = to_text (?f ''transactionId''), x_sessionId = to_text (?f ''sessionId''),
         x_transactionEpoch =
           (case get_prop v (js ''transactionEpoch'') of Some (JNum (Fin q)) \<Rightarrow> \<lfloor>q\<rfloor> | _ \<Rightarrow> 0),
         x_participantSetText = to_text (?f ''participantSetText''), x_decision = ?f ''decision'',
         x_decisionText = ?f ''decisionText'', x_decisionDigest = ?f ''decisionDigest'', x_status = ?f ''status''\<rparr>"
    using assms unfolding canonicalTransactionSettlement_def Let_def
    by (auto split: option.splits if_splits simp del: js_simps)
  have t: "?f ''transactionId'' = Text (x_transactionId c)"
    using k(6) unfolding k(9) by (cases "?f ''transactionId''") (simp_all add: hex_text_def del: js_simps)
  have p: "?f ''participantSetText'' = Text (x_participantSetText c)"
    using k(7) unfolding k(9)
    by (cases "?f ''participantSetText''") (simp_all add: readParticipantSet_def del: js_simps)
  have c: "x_kind c = kind" "x_json c = JObj (map (\<lambda>k. (k, the (get_prop v k))) (BASE_FIELDS @ extra))"
      "x_decision c = ?f ''decision''" "x_decisionText c = ?f ''decisionText''"
      "x_decisionDigest c = ?f ''decisionDigest''" "x_status c = ?f ''status''"
    unfolding k(9) by (simp_all del: js_simps)
  have r: "readParticipantSet ns (x_transactionId c) (Text (x_participantSetText c)) = Some pairs"
    using k(7) unfolding t p to_text.simps .
  show ?thesis
    by (rule that [OF k(1) _ _ k(4) _ c(2) t r _ c(3-6)])
      (use k(2,3,5,8) in \<open>simp_all only: c(1) list_all_iff subset_iff Ball_def\<close>)
qed

lemma canonical_names:
  assumes "canonicalTransactionSettlement ns h v = Some c" "own_keys v = Some names"
    "EXTRA_FIELDS (x_kind c) = Some extra"
  shows "set names = set (BASE_FIELDS @ extra)"
proof -
  have n: "length names = length (BASE_FIELDS @ extra)" "set (BASE_FIELDS @ extra) \<subseteq> set names"
    using canonicalD [OF assms(1)] assms(2,3) by (metis option.inject)+
  have "card (set names) \<le> card (set (BASE_FIELDS @ extra))"
    using card_length [of names] n(1) distinct_card [OF settlement_keys_distinct [OF assms(3)]] by simp
  then show ?thesis using card_seteq [OF _ n(2)] by simp
qed

lemma map_of_keys: "map_of (map (\<lambda>k. (k, f k)) ks) k = (if k \<in> set ks then Some (f k) else None)"
  by (induction ks) auto

lemma canonical_get_prop:
  assumes "canonicalTransactionSettlement ns h v = Some c"
  shows "get_prop (x_json c) k = get_prop v k"
proof (rule canonicalD [OF assms])
  fix names extra assume n: "own_keys v = Some names" "EXTRA_FIELDS (x_kind c) = Some extra"
    "x_json c = JObj (map (\<lambda>k. (k, the (get_prop v k))) (BASE_FIELDS @ extra))"
  have "get_prop v k = None \<longleftrightarrow> k \<notin> set (BASE_FIELDS @ extra)"
    using own_keys_get_prop [OF n(1)] unfolding canonical_names [OF assms n(1,2)] .
  then show ?thesis unfolding n(3) get_prop.simps map_of_keys by (cases "get_prop v k") simp_all
qed

text \<open>Reading the canonical form again gives the same settlement.\<close>

lemma canonical_idem:
  assumes "canonicalTransactionSettlement ns h v = Some c"
  shows "canonicalTransactionSettlement ns h (x_json c) = Some c"
proof (rule canonicalD [OF assms])
  fix names extra assume n: "own_keys v = Some names" "EXTRA_FIELDS (x_kind c) = Some extra"
    "length names = length (BASE_FIELDS @ extra)"
    "x_json c = JObj (map (\<lambda>k. (k, the (get_prop v k))) (BASE_FIELDS @ extra))"
  have keys: "own_keys (x_json c) = Some (BASE_FIELDS @ extra)"
    unfolding n(4) by (simp add: own_keys_def comp_def)
  have "canonicalTransactionSettlement ns h (x_json c) = canonicalTransactionSettlement ns h v"
    by (rule canonical_cong [OF canonical_get_prop [OF assms] keys n(1)])
      (use n(3) canonical_names [OF assms n(1,2)] in simp_all)
  then show ?thesis using assms by simp
qed

lemma canonical_decide:
  assumes "canonicalTransactionSettlement ns h v = Some c" "x_kind c = JStr DECIDE"
  obtains r pairs where "readParticipantSet ns (x_transactionId c) (Text (x_participantSetText c)) = Some pairs"
    "sameDecisionSet r pairs" "record_ok r" "d_transactionId r = x_transactionId c"
    "d_decisionText r = stringify ns (decision_json (d_transactionId r) (d_decision r) (d_participants r))"
    "d_decisionDigest r = h (d_decisionText r)"
    "x_decision c = Text (d_decision r)" "x_decisionText c = Text (d_decisionText r)"
    "x_decisionDigest c = Text (d_decisionDigest r)"
proof (rule canonicalD [OF assms(1)])
  fix names extra pairs
  assume n: "own_keys v = Some names" "EXTRA_FIELDS (x_kind c) = Some extra"
    "set (BASE_FIELDS @ extra) \<subseteq> set names"
    and p: "readParticipantSet ns (x_transactionId c) (Text (x_participantSetText c)) = Some pairs"
    and d: "x_kind c = JStr DECIDE \<longrightarrow>
       (\<exists>r. canonicalDecisionRecord ns h (data_binding v) = Some r \<and> sameDecisionSet r pairs)"
    and f: "x_decision c = own_field (get_prop v (js ''decision''))"
      "x_decisionText c = own_field (get_prop v (js ''decisionText''))"
      "x_decisionDigest c = own_field (get_prop v (js ''decisionDigest''))"
    and t: "own_field (get_prop v (js ''transactionId'')) = Text (x_transactionId c)"
  obtain r where r: "canonicalDecisionRecord ns h (data_binding v) = Some r" "sameDecisionSet r pairs"
    using d assms(2) by blast
  note D = canonicalDecisionRecordD [OF r(1)]
  have "js ''decision'' \<in> set names"
    using n(2,3) unfolding assms(2) by (auto simp: EXTRA_FIELDS_def DECIDE_def FREEZE_def simp del: js_simps)
  then have "get_prop v (js ''decision'') \<noteq> None" using own_keys_get_prop [OF n(1)] by simp
  then have "x_decision c \<noteq> Undef" unfolding f
    by (cases "get_prop v (js ''decision'')" rule: own_field.cases) (simp_all del: js_simps)
  then have "x_decision c = Text (d_decision r)" using D(7) by (simp add: data_binding_def f del: js_simps)
  then show ?thesis
    using D t by (intro that [OF p r(2)]) (simp_all add: data_binding_def f del: js_simps)
qed

subsection \<open>What an application does to the rows\<close>

lemma find_transaction_SomeD: "find_transaction rows t = Some r \<Longrightarrow> r \<in> set rows \<and> t_transactionId r = t"
  unfolding find_transaction_def by (auto simp: find_Some_iff)

lemma distinct_same:
  assumes "distinct (map t_transactionId rows)" "r \<in> set rows" "r' \<in> set rows" "t_transactionId r = t_transactionId r'"
  shows "r = r'"
  using assms by (simp add: distinct_map inj_on_def)

lemma recorded_absent:
  "decisionRecordOfRow ns h row e = RecordedAbsent \<longleftrightarrow>
     t_decision row = None \<and> t_decisionText row = None \<and> t_decisionDigest row = None"
  by (auto simp: decisionRecordOfRow_def split: option.splits)

lemma recorded_expected:
  "decisionRecordOfRow ns h row (Some (t_transactionId row)) = decisionRecordOfRow ns h row None"
  by (simp add: decisionRecordOfRow_def split: option.split)

definition recorded_bad :: "recorded \<Rightarrow> (jsstring \<times> jsstring) list \<Rightarrow> bool" where
  "recorded_bad rec pairs \<longleftrightarrow>
     (case rec of RecordedInvalid _ \<Rightarrow> True | Recorded r \<Rightarrow> \<not> sameDecisionSet r pairs | RecordedAbsent \<Rightarrow> False)"

text \<open>The verdict on a row whose identity, participant set and recorded decision are in order.\<close>

definition verdict ::
  "settlement \<Rightarrow> tx_row \<Rightarrow> recorded \<Rightarrow> nat \<Rightarrow> settlement_result"
where
  "verdict c row rec n =
     (let frozen = validFrozenRow row n in
      if x_kind c = JStr FREEZE
      then (if frozen then settled SETTLE_REPLAYED (Some rec)
            else if t_participantSetState row = Some (js ''OPEN'') \<and> t_commitMode row = Some (js ''NOT_SELECTED'') \<and>
                    t_frozenParticipantCount row = Some 0 \<and> rec = RecordedAbsent
            then settled SETTLE_READY None else settle_refused REASON_PHASE)
      else if \<not> frozen then settle_refused REASON_PHASE
      else if x_kind c = JStr DECIDE
      then (case rec of
              Recorded r \<Rightarrow>
                settled (if Text (d_decisionText r) = x_decisionText c \<and> Text (d_decisionDigest r) = x_decisionDigest c
                         then SETTLE_REPLAYED else SETTLE_ALREADY_RECORDED) (Some rec)
            | _ \<Rightarrow> if x_decision c = Text ROLLBACK then settled SETTLE_READY None else settle_refused REASON_COMMIT)
      else
        (case rec of
           Recorded r \<Rightarrow>
             if progressRefusal c r then settle_refused REASON_BINDING
             else settled (if opt_field (t_status row) = x_status c \<or> t_status row = Some (final_status r)
                           then SETTLE_REPLAYED else SETTLE_READY) (Some rec)
         | _ \<Rightarrow> settle_refused REASON_BINDING))"

lemma validate_eq:
  assumes "canonicalTransactionSettlement ns h v = Some c"
  shows "validateTransactionSettlement ns h v (Some row) =
    (if t_transactionId row \<noteq> x_transactionId c \<or> t_sessionId row \<noteq> Some (x_sessionId c) \<or>
        t_transactionEpoch row \<noteq> Some (x_transactionEpoch c)
     then settle_refused REASON_IDENTITY
     else case readParticipantSet ns (t_transactionId row) (opt_field (t_participantSetText row)) of
       None \<Rightarrow> settle_refused REASON_LEGACY
     | Some pairs \<Rightarrow>
         if t_participantSetText row \<noteq> Some (x_participantSetText c) then settle_refused REASON_SET
         else if recorded_bad (decisionRecordOfRow ns h row (Some (x_transactionId c))) pairs
         then settle_refused REASON_DECISION
         else verdict c row (decisionRecordOfRow ns h row (Some (x_transactionId c))) (length pairs))"
  unfolding validateTransactionSettlement_def assms option.case Let_def recorded_bad_def verdict_def ..

lemma validate_cases:
  assumes "canonicalTransactionSettlement ns h v = Some c"
  obtains (refused) reason where "reason \<noteq> REASON_READ"
      "validateTransactionSettlement ns h v (Some row) = settle_refused reason"
  | (checked) pairs where "t_transactionId row = x_transactionId c" "t_sessionId row = Some (x_sessionId c)"
      "t_transactionEpoch row = Some (x_transactionEpoch c)"
      "t_participantSetText row = Some (x_participantSetText c)"
      "readParticipantSet ns (x_transactionId c) (Text (x_participantSetText c)) = Some pairs"
      "\<not> recorded_bad (decisionRecordOfRow ns h row None) pairs"
      "validateTransactionSettlement ns h v (Some row) =
         verdict c row (decisionRecordOfRow ns h row None) (length pairs)"
proof -
  let ?val = "validateTransactionSettlement ns h v (Some row)"
  let ?P = "readParticipantSet ns (t_transactionId row) (opt_field (t_participantSetText row))"
  let ?R = "decisionRecordOfRow ns h row (Some (x_transactionId c))"
  note val = validate_eq [OF assms, of row]
  show ?thesis
  proof (cases "t_transactionId row = x_transactionId c \<and> t_sessionId row = Some (x_sessionId c) \<and>
      t_transactionEpoch row = Some (x_transactionEpoch c)")
    case False
    then have "?val = settle_refused REASON_IDENTITY" unfolding val by auto
    then show ?thesis by (intro refused) simp_all
  next
    case id: True
    show ?thesis
    proof (cases ?P)
      case None
      then show ?thesis using id by (intro refused [of REASON_LEGACY]) (simp_all add: val)
    next
      case (Some pairs)
      note v1 = val [unfolded Some option.case]
      show ?thesis
      proof (cases "t_participantSetText row = Some (x_participantSetText c)")
        case False
        then show ?thesis using id by (intro refused [of REASON_SET]) (simp_all add: v1)
      next
        case set: True
        have R: "?R = decisionRecordOfRow ns h row None"
          using id recorded_expected [of ns h row] by simp
        show ?thesis
        proof (cases "recorded_bad ?R pairs")
          case True
          then show ?thesis using id set by (intro refused [of REASON_DECISION]) (simp_all add: v1)
        next
          case False
          have "readParticipantSet ns (x_transactionId c) (Text (x_participantSetText c)) = Some pairs"
            using Some id set by simp
          with False show ?thesis using id set
            by (intro checked [of pairs]) (simp_all add: v1 R)
        qed
      qed
    qed
  qed
qed

definition decision_fields :: "tx_row \<Rightarrow> jsstring option \<times> jsstring option \<times> jsstring option" where
  "decision_fields r = (t_decision r, t_decisionText r, t_decisionDigest r)"

text \<open>The three ways a checked row is ready to be changed.\<close>

lemma verdict_ready:
  assumes "sr_outcome (verdict c row rec n) = SETTLE_READY" "\<not> recorded_bad rec pairs"
  obtains (freeze) "x_kind c = JStr FREEZE" "t_participantSetState row = Some (js ''OPEN'')" "rec = RecordedAbsent"
  | (decide) "x_kind c = JStr DECIDE" "x_kind c \<noteq> JStr FREEZE" "validFrozenRow row n" "rec = RecordedAbsent"
      "x_decision c = Text ROLLBACK"
  | (progress) r where "x_kind c \<noteq> JStr FREEZE" "x_kind c \<noteq> JStr DECIDE" "validFrozenRow row n" "rec = Recorded r"
      "\<not> progressRefusal c r" "opt_field (t_status row) \<noteq> x_status c" "t_status row \<noteq> Some (final_status r)"
proof (cases "x_kind c = JStr FREEZE")
  case True
  then show ?thesis
    using assms(1) by (intro freeze)
      (auto simp: verdict_def Let_def settled_def settle_refused_def split: if_splits simp del: js_simps)
next
  case nf: False
  have frozen: "validFrozenRow row n"
    using assms(1) nf by (auto simp: verdict_def settle_refused_def Let_def split: if_splits)
  show ?thesis
  proof (cases "x_kind c = JStr DECIDE")
    case True
    then show ?thesis using assms nf frozen
      by (intro decide) (auto simp: verdict_def Let_def settled_def settle_refused_def recorded_bad_def
          split: if_splits recorded.splits)
  next
    case False
    then have "\<exists>r. rec = Recorded r \<and> \<not> progressRefusal c r \<and> opt_field (t_status row) \<noteq> x_status c \<and>
        t_status row \<noteq> Some (final_status r)"
      using assms nf frozen by (auto simp: verdict_def Let_def settled_def settle_refused_def
          split: if_splits recorded.splits)
    then show ?thesis using nf False frozen progress by blast
  qed
qed

lemma map_single:
  assumes "distinct (map t_transactionId rows)" "row \<in> set rows" "\<And>r. r \<in> set rows \<Longrightarrow> P r \<longleftrightarrow> r = row"
  shows "filter P rows = [row]" "map (\<lambda>r. if P r then f r else r) rows = map (\<lambda>r. if r = row then f row else r) rows"
proof -
  have "filter P rows = filter (\<lambda>r. r = row) rows" by (rule filter_cong) (use assms(3) in auto)
  also have "\<dots> = [row]"
    using assms(1,2) by (induction rows) (auto simp: filter_empty_conv image_iff)
  finally show "filter P rows = [row]" .
  show "map (\<lambda>r. if P r then f r else r) rows = map (\<lambda>r. if r = row then f row else r) rows"
    by (rule map_cong) (use assms(3) in auto)
qed

lemma find_transaction_updated:
  assumes "find_transaction rows t = Some row" "t_transactionId row' = t_transactionId row"
  shows "find_transaction (map (\<lambda>r. if r = row then row' else r) rows) t = Some row'"
  using assms unfolding find_transaction_def by (induction rows) (auto split: if_splits)

lemma settlement_update_keeps [simp]:
  "t_transactionId (settlement_update ns c r) = t_transactionId r"
  "t_sessionId (settlement_update ns c r) = t_sessionId r"
  "t_transactionEpoch (settlement_update ns c r) = t_transactionEpoch r"
  "t_participantSetText (settlement_update ns c r) = t_participantSetText r"
  by (simp_all add: settlement_update_def)

lemma ROW_WHERE_iff:
  assumes "distinct (map t_transactionId rows)" "row \<in> set rows" "r \<in> set rows"
    and "t_sessionId row \<noteq> None" "t_transactionEpoch row \<noteq> None" "t_participantSetText row \<noteq> None"
      "t_participantSetState row \<noteq> None"
  shows "ROW_WHERE row r \<longleftrightarrow> r = row"
  using distinct_same [OF assms(1,3,2)] assms(4-) by (auto simp: ROW_WHERE_def)

text \<open>Applying a settlement either answers and leaves the rows, or changes the one row it names.\<close>

lemma apply_cases:
  assumes "applyTransactionSettlement ns h rows v = (res, rows')" "distinct (map t_transactionId rows)"
  obtains (refused) reason where "rows' = rows" "res = settle_refused reason" "reason \<noteq> REASON_READ"
  | (answered) c row n where "rows' = rows" "canonicalTransactionSettlement ns h v = Some c"
      "res = verdict c row (decisionRecordOfRow ns h row None) n" "sr_outcome res \<noteq> SETTLE_READY"
      "\<forall>t. decisionRecordOfRow ns h row None \<noteq> RecordedInvalid t"
  | (moved) c row pairs where "canonicalTransactionSettlement ns h v = Some c"
      "find_transaction rows (x_transactionId c) = Some row"
      "t_transactionId row = x_transactionId c" "t_sessionId row = Some (x_sessionId c)"
      "t_transactionEpoch row = Some (x_transactionEpoch c)"
      "t_participantSetText row = Some (x_participantSetText c)"
      "readParticipantSet ns (x_transactionId c) (Text (x_participantSetText c)) = Some pairs"
      "\<not> recorded_bad (decisionRecordOfRow ns h row None) pairs"
      "sr_outcome (verdict c row (decisionRecordOfRow ns h row None) (length pairs)) = SETTLE_READY"
      "rows' = map (\<lambda>r. if r = row then settlement_update ns c row else r) rows"
      "res = settled SETTLE_APPLIED (Some (decisionRecordOfRow ns h (settlement_update ns c row) None))"
proof (cases "canonicalTransactionSettlement ns h v")
  case None
  then show ?thesis using assms(1)
    by (intro refused [of REASON_INVALID]) (auto simp: applyTransactionSettlement_def)
next
  case (Some c)
  note c = Some
  note idem = canonical_idem [OF c]
  show ?thesis
  proof (cases "find_transaction rows (x_transactionId c)")
    case None
    then show ?thesis using assms(1) c idem
      by (intro refused [of REASON_MISSING])
        (auto simp: applyTransactionSettlement_def validateTransactionSettlement_def)
  next
    case (Some row)
    let ?val = "validateTransactionSettlement ns h (x_json c) (Some row)"
    have app: "(res, rows') = (if sr_outcome ?val \<noteq> SETTLE_READY then (?val, rows)
        else (let rows' = map (\<lambda>r. if ROW_WHERE row r then settlement_update ns c r else r) rows in
                     (if length (filter (ROW_WHERE row) rows) = 1
                      then settled SETTLE_APPLIED
                        (Some (case find_transaction rows' (x_transactionId c) of
                                 Some r \<Rightarrow> decisionRecordOfRow ns h r None
                               | None \<Rightarrow> RecordedAbsent))
                      else settle_refused REASON_CAS, rows')))"
      using assms(1) c Some by (simp add: applyTransactionSettlement_def Let_def)
    show ?thesis
    proof (cases rule: validate_cases [OF idem, of row])
      case (1 reason)
      then show ?thesis using app by (intro refused [of reason]) (simp_all add: settle_refused_def)
    next
      case (2 pairs)
      show ?thesis
      proof (cases "sr_outcome ?val = SETTLE_READY")
        case False
        then show ?thesis
          using app 2(6,7) by (intro answered [OF _ c, of row "length pairs"]) (auto simp: recorded_bad_def)
      next
        case True
        have mem: "row \<in> set rows" using find_transaction_SomeD [OF Some] by simp
        have "t_participantSetState row \<noteq> None"
          by (rule verdict_ready [OF True [unfolded 2(7)] 2(6)]) (auto simp: validFrozenRow_def)
        then have W: "ROW_WHERE row r \<longleftrightarrow> r = row" if "r \<in> set rows" for r
          using ROW_WHERE_iff [OF assms(2) mem that] 2(2-4) by simp
        note one = map_single [OF assms(2) mem W]
        show ?thesis
          using app True 2 find_transaction_updated [OF Some, of "settlement_update ns c row"]
          by (intro moved [OF c Some 2(1-6)]) (simp_all add: one Let_def del: One_nat_def)
      qed
    qed
  qed
qed

text \<open>The decision of the row after each kind of change.\<close>

lemma update_decide:
  assumes "canonicalTransactionSettlement ns h v = Some c" "x_kind c = JStr DECIDE"
    and "t_transactionId row = x_transactionId c"
    and "readParticipantSet ns (x_transactionId c) (Text (x_participantSetText c)) = Some pairs"
  obtains d where "decisionRecordOfRow ns h (settlement_update ns c row) None = Recorded d"
    "sameDecisionSet d pairs" "x_decision c = Text (d_decision d)" "x_decisionText c = Text (d_decisionText d)"
    "x_decisionDigest c = Text (d_decisionDigest d)" "t_decision (settlement_update ns c row) \<noteq> None"
proof (rule canonical_decide [OF assms(1,2)])
  fix d pairs'
  assume d: "readParticipantSet ns (x_transactionId c) (Text (x_participantSetText c)) = Some pairs'"
    "sameDecisionSet d pairs'" "record_ok d" "d_transactionId d = x_transactionId c"
    "d_decisionText d = stringify ns (decision_json (d_transactionId d) (d_decision d) (d_participants d))"
    "d_decisionDigest d = h (d_decisionText d)" "x_decision c = Text (d_decision d)"
    "x_decisionText c = Text (d_decisionText d)" "x_decisionDigest c = Text (d_decisionDigest d)"
  have "DECIDE \<noteq> FREEZE" by (simp add: DECIDE_def FREEZE_def del: js_simps)
  then have row': "t_decision (settlement_update ns c row) = Some (d_decision d)"
    "t_decisionText (settlement_update ns c row) = Some (d_decisionText d)"
    "t_decisionDigest (settlement_update ns c row) = Some (d_decisionDigest d)"
    using assms(2) d(7-9) by (simp_all add: settlement_update_def field_text_def)
  have "canonicalDecisionRecord ns h (row_binding (settlement_update ns c row)) = Some d"
    by (rule canonicalDecisionRecordI [OF d(3,5)]) (use d(6) in \<open>simp_all add: row_binding_def row' assms(3) d(4)\<close>)
  then have "decisionRecordOfRow ns h (settlement_update ns c row) None = Recorded d"
    by (simp add: decisionRecordOfRow_def row')
  then show ?thesis using that d assms(4) row' by simp
qed

lemma same_decision_fields:
  assumes "decision_fields r = decision_fields r'" "t_transactionId r = t_transactionId r'"
  shows "decisionRecordOfRow ns h r e = decisionRecordOfRow ns h r' e"
  using assms unfolding decisionRecordOfRow_def row_binding_def decision_fields_def by (auto split: option.split)

lemma update_other:
  "x_kind c \<noteq> JStr DECIDE \<Longrightarrow> decision_fields (settlement_update ns c row) = decision_fields row"
  by (simp add: settlement_update_def decision_fields_def)

text \<open>
  What a settlement may do to a row: identity and participant set stay; decision fields stay or a row
  without a decision gains a valid \<open>ROLLBACK\<close>; the status stays or becomes one that belongs to the
  decision the row already holds, and a final status stays; an open participant set of a row without a
  decision may become frozen.
\<close>

definition settlement_moves :: "(xnum \<Rightarrow> jsstring) \<Rightarrow> (jsstring \<Rightarrow> jsstring) \<Rightarrow> tx_row \<Rightarrow> tx_row \<Rightarrow> bool" where
  "settlement_moves ns h r r' \<longleftrightarrow>
     t_transactionId r' = t_transactionId r \<and> t_sessionId r' = t_sessionId r \<and>
     t_transactionEpoch r' = t_transactionEpoch r \<and> t_participantSetText r' = t_participantSetText r \<and>
     (decision_fields r' = decision_fields r \<or>
       decision_fields r = (None, None, None) \<and>
       (\<exists>d. decisionRecordOfRow ns h r' None = Recorded d \<and> d_decision d = ROLLBACK)) \<and>
     (t_status r' = t_status r \<or>
       (\<exists>d. decisionRecordOfRow ns h r None = Recorded d \<and> t_status r \<noteq> Some (final_status d) \<and>
          t_status r' \<in> Some ` set (if d_decision d = COMMIT then COMMIT_STATUSES else ROLLBACK_STATUSES))) \<and>
     (t_participantSetState r' = t_participantSetState r \<or>
       t_participantSetState r = Some (js ''OPEN'') \<and> t_participantSetState r' = Some (js ''FROZEN'') \<and>
       decision_fields r = (None, None, None))"

lemma settlement_moves_refl [simp]: "settlement_moves ns h r r"
  by (simp add: settlement_moves_def)

lemma update_moves:
  assumes c: "canonicalTransactionSettlement ns h v = Some c"
    and row: "t_transactionId row = x_transactionId c"
    and pairs: "readParticipantSet ns (x_transactionId c) (Text (x_participantSetText c)) = Some pairs"
    and ok: "\<not> recorded_bad (decisionRecordOfRow ns h row None) pairs"
    and ready: "sr_outcome (verdict c row (decisionRecordOfRow ns h row None) (length pairs)) = SETTLE_READY"
  shows "settlement_moves ns h row (settlement_update ns c row) \<and> settlement_update ns c row \<noteq> row"
proof (cases rule: verdict_ready [OF ready ok])
  case 1
  have "decision_fields row = (None, None, None)"
    using 1(3) by (simp add: decision_fields_def recorded_absent)
  moreover have "t_participantSetState (settlement_update ns c row) = Some (js ''FROZEN'')"
      "t_status (settlement_update ns c row) = t_status row"
      "decision_fields (settlement_update ns c row) = decision_fields row"
    using 1(1) by (simp_all add: settlement_update_def decision_fields_def del: js_simps)
  ultimately show ?thesis using 1(2) by (auto simp: settlement_moves_def simp del: js_simps)
next
  case 2
  have none: "decision_fields row = (None, None, None)"
    using 2(4) by (simp add: decision_fields_def recorded_absent)
  obtain d where d: "decisionRecordOfRow ns h (settlement_update ns c row) None = Recorded d"
      "x_decision c = Text (d_decision d)" "t_decision (settlement_update ns c row) \<noteq> None"
    by (rule update_decide [OF c 2(1) row pairs])
  have "t_participantSetState (settlement_update ns c row) = t_participantSetState row"
      "t_status (settlement_update ns c row) = t_status row"
    using 2(1,2) by (simp_all add: settlement_update_def del: js_simps)
  then show ?thesis
    using none d 2(5) by (auto simp: settlement_moves_def decision_fields_def simp del: js_simps)
next
  case (3 d)
  obtain s where s: "x_status c = Text s" "s \<in> set (if d_decision d = COMMIT then COMMIT_STATUSES else ROLLBACK_STATUSES)"
    using 3(5) by (auto simp: progressRefusal_def Let_def split: if_splits)
  have up: "settlement_update ns c row = row\<lparr>t_status := Some s\<rparr>"
    using 3(1,2) s(1) by (simp add: settlement_update_def field_text_def)
  have "t_status row \<noteq> Some s" using 3(6) s(1) by auto
  then have "row\<lparr>t_status := Some s\<rparr> \<noteq> row" by (metis tx_row.select_convs(4) tx_row.surjective tx_row.update_convs(4))
  then show ?thesis unfolding up using 3(4,7) s(2)
    by (auto simp: settlement_moves_def decision_fields_def simp del: js_simps)
qed

text \<open>
  C18: A coordinator settlement never commits and never changes a decision. Whatever JSON value is
  applied, every row keeps its identity and participant set; a recorded decision stays as it is, a
  row without one may only gain a valid \<open>ROLLBACK\<close>; a status only moves to one that belongs to the
  recorded decision and never away from the final one; and freezing happens only to an open row
  without a decision. Any answer but \<open>applied\<close> leaves the table unchanged, and \<open>applied\<close> means that
  exactly one row changed.
\<close>

theorem settlement_never_commits:
  assumes "applyTransactionSettlement ns h rows v = (res, rows')" "distinct (map t_transactionId rows)"
  shows "list_all2 (settlement_moves ns h) rows rows' \<and>
     (if sr_outcome res = SETTLE_APPLIED
      then \<exists>row row'. row \<in> set rows \<and> row' \<noteq> row \<and> rows' = map (\<lambda>r. if r = row then row' else r) rows
      else rows' = rows)"
proof (cases rule: apply_cases [OF assms])
  case (1 reason)
  then show ?thesis by (simp add: list_all2_refl settle_refused_def)
next
  case (2 c row n)
  have "sr_outcome res \<noteq> SETTLE_APPLIED"
    unfolding 2(3) by (auto simp: verdict_def Let_def settled_def settle_refused_def split: recorded.splits)
  then show ?thesis using 2(1) by (simp add: list_all2_refl)
next
  case (3 c row pairs)
  note m = update_moves [OF 3(1,3,7,8,9)]
  have "list_all2 (settlement_moves ns h) rows rows'"
    unfolding 3(10) list_all2_map2 using m by (auto intro!: list_all2_all_nthI)
  then show ?thesis
    using m 3(10,11) find_transaction_SomeD [OF 3(2)] by (auto simp: settled_def)
qed

definition example_freeze :: json where
  "example_freeze = JObj [(js ''kind'', JStr (js ''FREEZE'')), (js ''transactionId'', JStr (replicate 32 97)),
     (js ''sessionId'', JStr (js ''s'')), (js ''transactionEpoch'', JNum (Fin 7)),
     (js ''participantSetText'', JStr (js ''[]''))]"

definition example_tx :: tx_row where
  "example_tx = \<lparr>t_transactionId = replicate 32 97, t_sessionId = Some (js ''s''), t_transactionEpoch = Some 7,
     t_status = Some (js ''ACTIVE''), t_participantSetState = Some (js ''OPEN''),
     t_participantSetText = Some (js ''[]''), t_commitMode = Some (js ''NOT_SELECTED''),
     t_frozenParticipantCount = Some 0, t_decision = None, t_decisionText = None, t_decisionDigest = None\<rparr>"

definition example_frozen :: tx_row where
  "example_frozen = example_tx\<lparr>t_participantSetState := Some (js ''FROZEN''),
     t_commitMode := Some (js ''TWO_PHASE_COMMIT'')\<rparr>"

lemma example_freeze_applied:
  "applyTransactionSettlement (\<lambda>_. []) (\<lambda>s. s) [example_tx] example_freeze =
     (settled SETTLE_APPLIED (Some RecordedAbsent), [example_frozen])"
  by code_simp

theorem settlement_never_commits_witness:
  "settlement_moves (\<lambda>_. []) (\<lambda>s. s) example_tx example_frozen \<and> example_frozen \<noteq> example_tx"
  using settlement_never_commits [OF example_freeze_applied] by (auto simp: settled_def)

lemma update_verdict:
  assumes c: "canonicalTransactionSettlement ns h v = Some c"
    and row: "t_transactionId row = x_transactionId c"
    and pairs: "readParticipantSet ns (x_transactionId c) (Text (x_participantSetText c)) = Some pairs"
    and ok: "\<not> recorded_bad (decisionRecordOfRow ns h row None) pairs"
    and ready: "sr_outcome (verdict c row (decisionRecordOfRow ns h row None) (length pairs)) = SETTLE_READY"
    and rec: "rec' = decisionRecordOfRow ns h (settlement_update ns c row) None"
  shows "\<not> recorded_bad rec' pairs"
    and "verdict c (settlement_update ns c row) rec' (length pairs) = settled SETTLE_REPLAYED (Some rec')"
proof -
  let ?row = "settlement_update ns c row" and ?rec = "decisionRecordOfRow ns h row None"
  let ?rec' = "decisionRecordOfRow ns h ?row None"
  have "\<not> recorded_bad ?rec' pairs \<and> verdict c ?row ?rec' (length pairs) = settled SETTLE_REPLAYED (Some ?rec')"
  proof (cases rule: verdict_ready [OF ready ok])
    case 1
    then have "?rec' = RecordedAbsent" using recorded_absent [of ns h row None]
      by (simp add: recorded_absent settlement_update_def)
    moreover have "validFrozenRow ?row (length pairs)"
      using 1(1) pairs by (simp add: validFrozenRow_def settlement_update_def)
    ultimately show ?thesis using 1(1) by (simp add: recorded_bad_def verdict_def)
  next
    case 2
    obtain d where d: "?rec' = Recorded d" "sameDecisionSet d pairs" "x_decisionText c = Text (d_decisionText d)"
        "x_decisionDigest c = Text (d_decisionDigest d)"
      by (rule update_decide [OF c 2(1) row pairs])
    have "validFrozenRow ?row (length pairs)"
      using 2(1-3) by (simp add: validFrozenRow_def settlement_update_def)
    then show ?thesis using d 2(1,2) by (simp add: recorded_bad_def verdict_def)
  next
    case (3 d)
    have "?rec' = Recorded d"
      using same_decision_fields [OF update_other [OF 3(2)]] 3(4) by simp
    moreover have "validFrozenRow ?row (length pairs)"
      using 3(1-3) by (simp add: validFrozenRow_def settlement_update_def)
    moreover obtain s where "x_status c = Text s"
      using 3(5) by (auto simp: progressRefusal_def Let_def)
    moreover have "t_status ?row = field_text (x_status c)"
      using 3(1,2) by (simp add: settlement_update_def)
    ultimately show ?thesis using 3 ok
      by (simp add: recorded_bad_def verdict_def field_text_def)
  qed
  then show "\<not> recorded_bad rec' pairs" "verdict c ?row rec' (length pairs) = settled SETTLE_REPLAYED (Some rec')"
    unfolding rec by simp_all
qed

text \<open>
  C38: A settlement is idempotent. After a settlement was applied, applying the same value again is
  answered \<open>replayed\<close> with the very record the first answer carried, and no row changes; the same holds
  after an answer that was itself a replay.
\<close>

theorem settlement_replay:
  assumes "applyTransactionSettlement ns h rows v = (res, rows')" "distinct (map t_transactionId rows)"
    and "sr_outcome res = SETTLE_APPLIED \<or> sr_outcome res = SETTLE_REPLAYED"
  shows "applyTransactionSettlement ns h rows' v = (settled SETTLE_REPLAYED (sr_record res), rows')"
proof (cases rule: apply_cases [OF assms(1,2)])
  case (1 reason)
  then show ?thesis using assms(3) by (auto simp: settle_refused_def)
next
  case (2 c row n)
  have "sr_outcome res \<noteq> SETTLE_APPLIED \<and> (sr_outcome res = SETTLE_REPLAYED \<longrightarrow> sr_reason res = None)"
    unfolding 2(3) by (auto simp: verdict_def Let_def settled_def settle_refused_def split: recorded.splits)
  then have "res = settled SETTLE_REPLAYED (sr_record res)"
    using assms(3) by (simp add: settled_def)
  then show ?thesis using assms(1) 2(1) by simp
next
  case (3 c row pairs)
  let ?row = "settlement_update ns c row"
  let ?rec' = "decisionRecordOfRow ns h ?row None"
  have find: "find_transaction rows' (x_transactionId c) = Some ?row"
    unfolding 3(10) by (rule find_transaction_updated [OF 3(2)]) simp
  note uv = update_verdict [OF 3(1,3,7,8,9) refl]
  have "validateTransactionSettlement ns h (x_json c) (Some ?row) = settled SETTLE_REPLAYED (Some ?rec')"
    using 3(3-7) recorded_expected [of ns h ?row] uv by (simp add: validate_eq [OF canonical_idem [OF 3(1)]])
  then show ?thesis
    using find 3(1,11) by (simp add: applyTransactionSettlement_def settled_def)
qed

theorem settlement_replay_witness:
  "applyTransactionSettlement (\<lambda>_. []) (\<lambda>s. s) [example_frozen] example_freeze =
     (settled SETTLE_REPLAYED (Some RecordedAbsent), [example_frozen])"
  using settlement_replay [OF example_freeze_applied] by (simp add: settled_def)

subsection \<open>Retained results and built commands\<close>

lemma named_outcome_name [simp]: "named_outcome (Some (JStr (outcome_name x))) = Some x"
  by (cases x) (simp_all add: named_outcome_def all_outcomes_def del: js_simps)

lemma named_reason_name [simp]: "named_reason (Some (JStr (reason_name x))) = Some x"
  by (cases x) (simp_all add: named_reason_def all_reasons_def del: js_simps)

lemma canonicalRecordedResult_json:
  assumes "decisionRecordOfRow ns h row e = rec" "\<forall>t. rec \<noteq> RecordedInvalid t"
  shows "canonicalRecordedResult ns h (recorded_json rec) = Some rec"
proof (cases rec)
  case RecordedAbsent
  then show ?thesis by (simp add: canonicalRecordedResult_def recorded_json_def own_keys_def del: js_simps)
next
  case (RecordedInvalid t)
  then show ?thesis using assms(2) by simp
next
  case (Recorded d)
  then have d: "canonicalDecisionRecord ns h (row_binding row) = Some d"
    using assms(1) by (auto simp: decisionRecordOfRow_def split: option.splits if_splits)
  note D = canonicalDecisionRecordD [OF d]
  have "canonicalDecisionRecord ns h (data_binding (recorded_json rec)) = Some d"
    by (rule canonicalDecisionRecordI [OF D(1,2)])
      (use D(5) in \<open>simp_all add: data_binding_def recorded_json_def Recorded del: js_simps\<close>)
  moreover have "own_keys (recorded_json rec) = Some RECORDED_FIELDS"
      "get_prop (recorded_json rec) (js ''state'') = Some (JStr (js ''recorded''))"
      "get_prop (recorded_json rec) (js ''participants'') = Some (JArr (map entry_json (d_participants d)))"
    by (simp_all add: recorded_json_def Recorded own_keys_def RECORDED_FIELDS_def del: js_simps)
  moreover have "length RECORDED_FIELDS = 6" by (simp add: RECORDED_FIELDS_def)
  ultimately show ?thesis
    by (simp add: canonicalRecordedResult_def Recorded list_all_iff del: js_simps)
qed

lemma plain_result_json [simp]: "plain (result_json r)"
  by (auto simp: result_json_def recorded_json_def split: option.split recorded.split simp del: js_simps)

lemma canonical_result_refused:
  "reason \<noteq> REASON_READ \<Longrightarrow>
   canonicalTransactionSettlementResult ns h (result_json (settle_refused reason)) = Some (settle_refused reason)"
  by (simp add: canonicalTransactionSettlementResult_def settle_refused_def result_json_def own_keys_def Let_def
      del: js_simps outcome_name.simps)

lemma canonical_result_settled:
  assumes "canonicalRecordedResult ns h (recorded_json rec) = Some rec"
    and "out = SETTLE_APPLIED \<or> out = SETTLE_REPLAYED \<or> out = SETTLE_ALREADY_RECORDED \<and> (\<exists>d. rec = Recorded d)"
  shows "canonicalTransactionSettlementResult ns h (result_json (settled out (Some rec))) = Some (settled out (Some rec))"
proof -
  let ?v = "result_json (settled out (Some rec))"
  have p: "own_keys ?v = Some (map js [''outcome'', ''reason'', ''recordedDecision''])"
    "get_prop ?v (js ''outcome'') = Some (JStr (outcome_name out))" "get_prop ?v (js ''reason'') = Some JNull"
    "get_prop ?v (js ''recordedDecision'') = Some (recorded_json rec)"
    by (simp_all add: result_json_def settled_def own_keys_def del: js_simps)
  have "recorded_json rec \<noteq> JNull" by (cases rec) (simp_all add: recorded_json_def)
  then show ?thesis
    unfolding canonicalTransactionSettlementResult_def Let_def p named_outcome_name prod.case option.case
    using assms by (auto simp: settled_def list_all_iff simp del: js_simps)
qed

lemma verdict_answer:
  assumes "sr_outcome (verdict c row rec n) \<noteq> SETTLE_READY"
  obtains (refused) reason where "reason \<noteq> REASON_READ" "verdict c row rec n = settle_refused reason"
  | (settled) out where "verdict c row rec n = settled out (Some rec)"
      "out = SETTLE_REPLAYED \<or> out = SETTLE_ALREADY_RECORDED \<and> (\<exists>d. rec = Recorded d)"
proof (cases rec)
  case (Recorded d)
  then show ?thesis
    using assms refused [of REASON_PHASE] refused [of REASON_BINDING] settled [of SETTLE_REPLAYED]
      settled [of SETTLE_ALREADY_RECORDED]
    by (simp add: verdict_def Let_def settled_def split: if_splits)
qed (use assms refused [of REASON_PHASE] refused [of REASON_BINDING] refused [of REASON_COMMIT]
    settled [of SETTLE_REPLAYED] in
    \<open>simp_all add: verdict_def Let_def settled_def split: if_splits\<close>)

text \<open>
  C39: The result of a settlement survives its retention. The result an application returns passes the
  validation that guards both the first answer and every later one, so applying never fails on its own
  result; and its retained text parses and validates to the same result, so a retry is answered with
  exactly what the first request was.
\<close>

theorem settlement_result_retained:
  assumes "applyTransactionSettlement ns h rows v = (res, rows')" "distinct (map t_transactionId rows)"
  shows "canonicalTransactionSettlementResult ns h (result_json res) = Some res \<and>
     canonicalTransactionSettlementResult ns h (parsedJsonOf (Text (stringify ns (result_json res)))) = Some res"
proof -
  have "canonicalTransactionSettlementResult ns h (result_json res) = Some res"
  proof (cases rule: apply_cases [OF assms])
    case (1 reason)
    then show ?thesis by (simp add: canonical_result_refused)
  next
    case (2 c row n)
    note rec = canonicalRecordedResult_json [OF refl 2(5)]
    from 2(4) show ?thesis unfolding 2(3)
      by (cases rule: verdict_answer) (auto simp: canonical_result_refused canonical_result_settled [OF rec])
  next
    case (3 c row pairs)
    note uv = update_verdict(1) [OF 3(1,3,7,8,9) refl]
    then have "\<forall>t. decisionRecordOfRow ns h (settlement_update ns c row) None \<noteq> RecordedInvalid t"
      by (auto simp: recorded_bad_def)
    from canonicalRecordedResult_json [OF refl this] show ?thesis
      unfolding 3(11) by (rule canonical_result_settled) simp
  qed
  then show ?thesis by simp
qed

theorem settlement_result_retained_witness:
  "canonicalTransactionSettlementResult (\<lambda>_. []) (\<lambda>s. s)
     (parsedJsonOf (Text (stringify (\<lambda>_. []) (result_json (settled SETTLE_APPLIED (Some RecordedAbsent)))))) =
   Some (settled SETTLE_APPLIED (Some RecordedAbsent))"
  using settlement_result_retained [OF example_freeze_applied] by simp

lemma built_settlement_pinned:
  assumes "buildCoordinatorSettlementCommand ns h partitionId st input = Some c" "partitionId \<noteq> []"
    and "is_text (s_timestamp st)" "is_text (s_proposedBy st)" "is_finite_num (s_proposedAt st)"
  shows "isPinnedCoordinatorSettlementCommand ns h c"
  using assms
  by (auto simp: buildCoordinatorSettlementCommand_def isPinnedCoordinatorSettlementCommand_def
      hasRequiredSettlementHeader_def transactionSettlementBytes_def Let_def canonical_idem split: option.splits)

end
