(* ===== verification/SchemaEnforcement.thy ===== *)
theory SchemaEnforcement
  imports ParticipantBytes
begin

text \<open>
  The schema contract of the coordinator table:
  \<open>src/src/query/distributed/distributed-transaction-schema-enforcement.js\<close> over the columns of
  \<open>src/src/bootstrap/system-table-workflow-schema-definitions.js\<close>, and the logical table names of
  \<open>src/src/bootstrap/system-table-schema-shared-constants.js\<close>.

  \<open>tx_schema\<close> is what SQLite reports of the table: its columns, the text of the trigger with the
  contract's name, and the number of rows. Upper-casing is the parameter \<open>uc\<close>; the digests of the
  report are not modelled.
\<close>

subsection \<open>Table names\<close>

definition SYSTEM_TABLE_NAMESPACE_PREFIX :: jsstring where
  "SYSTEM_TABLE_NAMESPACE_PREFIX = js ''global.''"

definition resolveLogicalTableName :: "jsstring option \<Rightarrow> jsstring option" where
  "resolveLogicalTableName name =
     (case name of
        None \<Rightarrow> None
      | Some n \<Rightarrow>
          if n = [] then None
          else if is_prefix SYSTEM_TABLE_NAMESPACE_PREFIX n
          then Some (drop (length SYSTEM_TABLE_NAMESPACE_PREFIX) n) else Some n)"

definition SQL_TRANSACTIONS :: jsstring where
  "SQL_TRANSACTIONS = js ''sql_transactions''"

definition isCoordinatorTable :: "jsstring option \<Rightarrow> bool" where
  "isCoordinatorTable name \<longleftrightarrow> resolveLogicalTableName name = Some SQL_TRANSACTIONS"

subsection \<open>The schema\<close>

record column =
  col_name :: jsstring
  col_type :: jsstring
  col_pk :: int

record tx_schema =
  z_columns :: "column list"
  z_trigger :: "jsstring option"
  z_count :: nat

definition SQL_TRANSACTIONS_COLUMNS :: "(jsstring \<times> jsstring) list" where
  "SQL_TRANSACTIONS_COLUMNS =
     map (\<lambda>(n, t). (js n, js t))
       [(''transaction_id'', ''TEXT''), (''session_id'', ''TEXT''), (''status'', ''TEXT''),
        (''transaction_epoch'', ''INTEGER''), (''timeout_deadline'', ''INTEGER''),
        (''transaction_mode'', ''TEXT''), (''participant_set_state'', ''TEXT''),
        (''participant_set_text'', ''TEXT''), (''commit_mode'', ''TEXT''),
        (''frozen_participant_count'', ''INTEGER''), (''decision'', ''TEXT''), (''decision_text'', ''TEXT''),
        (''decision_digest'', ''TEXT''), (''created_at'', ''INTEGER''), (''updated_at'', ''INTEGER'')]"

text \<open>The lines of the trigger, separated by line feeds.\<close>

fun text_lines :: "string list \<Rightarrow> string" where
  "text_lines [] = []"
| "text_lines [l] = l"
| "text_lines (l # ls) = l @ CHR 0x0A # text_lines ls"

definition INITIAL_ROW_TRIGGER_SQL :: jsstring where
  "INITIAL_ROW_TRIGGER_SQL = js (text_lines
     [''CREATE TRIGGER sql_transactions_initial_lineage_v1'',
      ''BEFORE INSERT ON sql_transactions'',
      ''WHEN COALESCE(('',
      ''  typeof(NEW.transaction_id) = 'text' AND length(NEW.transaction_id) = 32'',
      ''  AND NEW.transaction_id NOT GLOB '*[^0-9a-f]*'' @ [CHR 0x27],
      ''  AND typeof(NEW.session_id) = 'text' AND length(NEW.session_id) > 0'',
      ''  AND typeof(NEW.transaction_epoch) = 'integer'' @ [CHR 0x27],
      ''  AND NEW.transaction_epoch BETWEEN 0 AND 9007199254740991'',
      ''  AND typeof(NEW.timeout_deadline) = 'integer'' @ [CHR 0x27],
      ''  AND NEW.timeout_deadline BETWEEN 0 AND 9007199254740991'',
      ''  AND NEW.transaction_mode IN ('EXPLICIT', 'AUTOCOMMIT')'',
      ''  AND NEW.status = 'ACTIVE' AND NEW.participant_set_state = 'OPEN'' @ [CHR 0x27],
      ''  AND NEW.participant_set_text = '[]' AND NEW.commit_mode = 'NOT_SELECTED'' @ [CHR 0x27],
      ''  AND NEW.frozen_participant_count = 0'',
      ''  AND NEW.decision IS NULL AND NEW.decision_text IS NULL AND NEW.decision_digest IS NULL'',
      ''), 0) = 0 OR EXISTS ('',
      ''  SELECT 1 FROM sql_transactions WHERE transaction_id = NEW.transaction_id'',
      '')'',
      ''BEGIN SELECT RAISE(ABORT, 'transaction_initial_row_refused'); END''])"

subsection \<open>Reading and installing the contract\<close>

datatype enforcement_state = ENFORCED | REQUIRED | INCOMPATIBLE | UNAVAILABLE

definition by_name :: "column list \<Rightarrow> jsstring \<Rightarrow> column option" where
  "by_name columns = map_of (rev (map (\<lambda>c. (col_name c, c)) columns))"

definition missing_columns :: "column list \<Rightarrow> (jsstring \<times> jsstring) list" where
  "missing_columns columns = filter (\<lambda>(n, t). by_name columns n = None) SQL_TRANSACTIONS_COLUMNS"

definition shape_valid :: "(jsstring \<Rightarrow> jsstring) \<Rightarrow> column list \<Rightarrow> bool" where
  "shape_valid uc columns \<longleftrightarrow>
     (case by_name columns (js ''transaction_id'') of Some c \<Rightarrow> col_pk c = 1 | None \<Rightarrow> False) \<and>
     list_all (\<lambda>(n, t). case by_name columns n of None \<Rightarrow> True | Some c \<Rightarrow> uc (col_type c) = uc t)
       SQL_TRANSACTIONS_COLUMNS"

text \<open>\<open>None\<close> for the schema is a read that throws.\<close>

definition readTransactionSchemaEnforcement ::
  "(jsstring \<Rightarrow> jsstring) \<Rightarrow> tx_schema option \<Rightarrow> enforcement_state \<times> (jsstring \<times> jsstring) list"
where
  "readTransactionSchemaEnforcement uc schema =
     (case schema of
        None \<Rightarrow> (UNAVAILABLE, [])
      | Some s \<Rightarrow>
          (let missing = missing_columns (z_columns s) in
           if z_columns s = [] then (UNAVAILABLE, [])
           else if \<not> shape_valid uc (z_columns s) \<or>
                   (z_trigger s \<noteq> None \<and> z_trigger s \<noteq> Some INITIAL_ROW_TRIGGER_SQL)
           then (INCOMPATIBLE, missing)
           else if missing = [] \<and> z_trigger s = Some INITIAL_ROW_TRIGGER_SQL then (ENFORCED, missing)
           else (REQUIRED, missing)))"

definition isTransactionSchemaWriteRefused ::
  "(jsstring \<Rightarrow> jsstring) \<Rightarrow> tx_schema option \<Rightarrow> jsstring option \<Rightarrow> bool \<Rightarrow> bool"
where
  "isTransactionSchemaWriteRefused uc schema name originPresent \<longleftrightarrow>
     isCoordinatorTable name \<and> originPresent \<and> fst (readTransactionSchemaEnforcement uc schema) \<noteq> ENFORCED"

definition add_columns :: "(jsstring \<times> jsstring) list \<Rightarrow> tx_schema \<Rightarrow> tx_schema" where
  "add_columns missing s =
     s\<lparr>z_columns := z_columns s @ map (\<lambda>(n, t). \<lparr>col_name = n, col_type = t, col_pk = 0\<rparr>) missing\<rparr>"

text \<open>\<open>None\<close> when the installation throws; the application transaction then rolls back.\<close>

definition installTransactionSchemaEnforcement ::
  "(jsstring \<Rightarrow> jsstring) \<Rightarrow> tx_schema option \<Rightarrow> tx_schema option"
where
  "installTransactionSchemaEnforcement uc schema =
     (let (state, missing) = readTransactionSchemaEnforcement uc schema in
      case schema of
        None \<Rightarrow> None
      | Some s \<Rightarrow>
          if state = ENFORCED then Some s
          else if state \<noteq> REQUIRED \<or> (missing \<noteq> [] \<and> z_count s \<noteq> 0) then None
          else
            (let s1 = add_columns missing s;
                 s2 = (if z_trigger s = None then s1\<lparr>z_trigger := Some INITIAL_ROW_TRIGGER_SQL\<rparr> else s1)
             in if fst (readTransactionSchemaEnforcement uc (Some s2)) = ENFORCED then Some s2 else None))"

subsection \<open>Installing reaches the contract\<close>

definition plain_column :: "jsstring \<times> jsstring \<Rightarrow> column" where
  "plain_column p = \<lparr>col_name = fst p, col_type = snd p, col_pk = 0\<rparr>"

lemma add_columns_eq: "add_columns ms s = s\<lparr>z_columns := z_columns s @ map plain_column ms\<rparr>"
  by (simp add: add_columns_def plain_column_def case_prod_beta')

lemma columns_distinct: "distinct (map fst SQL_TRANSACTIONS_COLUMNS)"
  by (simp add: SQL_TRANSACTIONS_COLUMNS_def del: js_simps)

lemma by_name_append:
  "by_name (xs @ ys) n = (case by_name ys n of Some c \<Rightarrow> Some c | None \<Rightarrow> by_name xs n)"
  by (simp add: by_name_def map_add_def split: option.split)

lemma map_of_rev: "distinct (map fst xs) \<Longrightarrow> map_of (rev xs) = map_of xs"
  by (simp add: map_of_inject_set rev_map distinct_rev flip: rev_map)

lemma map_of_filter_keys: "map_of (filter (\<lambda>(n, t). P n) xs) n = (if P n then map_of xs n else None)"
  by (induction xs) auto

lemma by_name_added:
  assumes "distinct (map fst ms)"
  shows "by_name (map plain_column ms) n = map_option (\<lambda>t. plain_column (n, t)) (map_of ms n)"
proof -
  have "distinct (map fst (map (\<lambda>p. (fst p, plain_column p)) ms))" using assms by (simp add: comp_def)
  then have "by_name (map plain_column ms) n = map_of (map (\<lambda>p. (fst p, plain_column p)) ms) n"
    by (simp add: by_name_def comp_def plain_column_def map_of_rev flip: rev_map)
  also have "\<dots> = map_option (\<lambda>t. plain_column (n, t)) (map_of ms n)"
    by (induction ms) (auto simp: plain_column_def)
  finally show ?thesis .
qed

lemma by_name_completed:
  "by_name (cols @ map plain_column (missing_columns cols)) n =
     (case by_name cols n of
        Some c \<Rightarrow> Some c
      | None \<Rightarrow> map_option (\<lambda>t. plain_column (n, t)) (map_of SQL_TRANSACTIONS_COLUMNS n))"
proof -
  have dist: "distinct (map fst (missing_columns cols))"
    unfolding missing_columns_def using columns_distinct by (simp add: distinct_map_filter)
  have "map_of (missing_columns cols) n =
      (if by_name cols n = None then map_of SQL_TRANSACTIONS_COLUMNS n else None)"
    unfolding missing_columns_def by (rule map_of_filter_keys)
  then show ?thesis unfolding by_name_append by_name_added [OF dist] by (auto split: option.split)
qed

lemma completed_columns:
  assumes "shape_valid uc cols"
  shows "missing_columns (cols @ map plain_column (missing_columns cols)) = []"
    "shape_valid uc (cols @ map plain_column (missing_columns cols))"
proof -
  have known: "map_of SQL_TRANSACTIONS_COLUMNS n = Some t" if "(n, t) \<in> set SQL_TRANSACTIONS_COLUMNS" for n t
    using that columns_distinct by simp
  show "missing_columns (cols @ map plain_column (missing_columns cols)) = []"
    unfolding missing_columns_def [of "cols @ _"] by_name_completed
    using known by (auto simp: filter_empty_conv split: option.splits)
  show "shape_valid uc (cols @ map plain_column (missing_columns cols))"
    using assms known unfolding shape_valid_def by_name_completed
    by (fastforce simp: list_all_iff plain_column_def split: option.splits simp del: js_simps)
qed


end
