(* ===== verification/ParticipantApply.thy ===== *)
theory ParticipantApply
  imports ParticipantStore Settlement SchemaEnforcement
begin

text \<open>
  The application of committed participant transaction commands:
  \<open>src/src/partition/partition-participant-transaction-apply.js\<close>, with the envelope note of
  \<open>src/src/partition/partition-transaction-execution-envelope.js\<close>.

  An application either throws, which rolls the whole application transaction back, or returns its
  outcome, its effects in order and the new database. \<open>'d env\<close> holds the behaviours that are
  parameters: running a statement on the data, rendering a CDC event, reading and writing the coordinator
  table and its schema within the data, upper-casing, the digest and the number notation.
\<close>

subsection \<open>Environment, effects, answers\<close>

record statement =
  st_type :: sql_type
  st_sql :: jsstring
  st_params :: "json list"
  st_carried :: bool

record 'd env =
  en_run :: "'d \<Rightarrow> statement \<Rightarrow> js_error + (statement_result \<times> 'd)"
  en_render :: "'d \<Rightarrow> cdc_entry \<Rightarrow> jsstring"
  en_schema :: "'d \<Rightarrow> tx_schema option"
  en_putSchema :: "'d \<Rightarrow> tx_schema \<Rightarrow> 'd"
  en_transactions :: "'d \<Rightarrow> tx_row list"
  en_putTransactions :: "'d \<Rightarrow> tx_row list \<Rightarrow> 'd"
  en_uc :: "jsstring \<Rightarrow> jsstring"
  en_hash :: "jsstring \<Rightarrow> jsstring"
  en_ns :: "xnum \<Rightarrow> jsstring"

record service = cdc_service +
  sv_replica :: replica
  sv_envelope :: envelope

definition en_build :: "'d env \<Rightarrow> 'd \<Rightarrow> cdc_entry \<Rightarrow> jsstring option" where
  "en_build env = buildEvent (en_uc env) (en_render env)"

definition sv_partitionId :: "service \<Rightarrow> jsstring" where
  "sv_partitionId sv = rp_partitionId (sv_replica sv)"

definition sv_cdc :: "service \<Rightarrow> cdc_service" where
  "sv_cdc sv = cdc_service.truncate sv"

datatype answer =
    Refusal failure_code "row_answer option" "refusal_cause option" bool
  | Accepted row_answer bool bool "(int option \<times> int option) list option"
  | OriginAnswer int int bool
  | CapacityRefusal cdc_admission

datatype effect =
    Answer field answer
  | LogRefused failure_code
  | LogAlarm failure_code "refusal_cause option"
  | LogOriginMismatch "int option"
  | LogRowRefused refusal_cause
  | ReadmitReservedWrites
  | SizeUpdate
  | ClearRowKeys field
  | RecordRowKeys field int
  | WriteTraffic nat
  | CdcEffect cdc_effect
  | EntryCommitted
  | EnvelopeMismatch "envelope option"
  | OriginRecorded int int

type_synonym 'd applied = "host_failure + (committed_outcome \<times> effect list \<times> 'd pdb)"

text \<open>The committed record: the command with its position in the log.\<close>

record committed =
  cm_command :: pcommand
  cm_index :: int
  cm_term :: int

definition participant_row :: "'d pdb \<Rightarrow> pcommand \<Rightarrow> ptx_row option" where
  "participant_row db c = readParticipantTransactionRow db (c_transactionId c) (c_participantId c)"

definition consumedRefusal ::
  "committed \<Rightarrow> failure_code \<Rightarrow> row_answer option \<Rightarrow> refusal_cause option \<Rightarrow> effect list"
where
  "consumedRefusal cm code row cause =
     [LogRefused code, Answer (c_entryId (cm_command cm)) (Refusal code row cause False)]"

definition alarmRefusal ::
  "committed \<Rightarrow> failure_code \<Rightarrow> row_answer option \<Rightarrow> refusal_cause option \<Rightarrow> effect list"
where
  "alarmRefusal cm code row cause = LogAlarm code cause # consumedRefusal cm code row cause"

definition row_outcome :: "ptx_row option \<Rightarrow> row_answer" where
  "row_outcome row = participantOutcomeOf row ABSENT"

definition rowAnswer :: "'d pdb \<Rightarrow> pcommand \<Rightarrow> row_answer" where
  "rowAnswer db c = row_outcome (participant_row db c)"

definition validationTextHereOf :: "'d env \<Rightarrow> service \<Rightarrow> 'd pdb \<Rightarrow> host_failure + jsstring option" where
  "validationTextHereOf env sv db =
     bindE (readPartitionWriteOrigin db) (\<lambda>origin.
       case origin of
         None \<Rightarrow> Inr None
       | Some (originIndex, _) \<Rightarrow>
           bindE (readPartitionWriteGeneration db) (\<lambda>g.
             Inr (Some (validationTextOf (en_ns env) (en_hash env) g (sv_partitionId sv) originIndex))))"

subsection \<open>The dry run and the operations\<close>

definition carried_statement :: "operation \<Rightarrow> statement" where
  "carried_statement oper =
     \<lparr>st_type = QUERY, st_sql = op_sql oper, st_params = op_params oper, st_carried = True\<rparr>"

definition runCarriedOperation :: "'d env \<Rightarrow> 'd \<Rightarrow> operation \<Rightarrow> js_error + (statement_result \<times> 'd)" where
  "runCarriedOperation env data oper = en_run env data (carried_statement oper)"

definition code_separator :: jsstring where
  "code_separator = js '': ''"

definition message_of :: "jsstring \<Rightarrow> jsstring \<Rightarrow> jsstring" where
  "message_of text_part code = text_part @ code_separator @ code"

text \<open>The two refusal causes a failure maps to: the statement's own and the row identifier ceiling.\<close>

definition deterministicRefusalOf ::
  "js_error \<Rightarrow> refusal_cause \<Rightarrow> refusal_cause \<Rightarrow> host_failure + (refusal_cause \<times> jsstring option)"
where
  "deterministicRefusalOf e stmt ceil_cause =
     (if er_code e = Some STATEMENT_REFUSAL_CODE
      then Inr (if er_refusalLayer e = Some (js ''rowid_ceiling'') then ceil_cause else stmt, Some (er_message e))
      else if isDeterministicStatementFailure e True
      then Inr (stmt, Some (message_of (er_message e) (failureCodeOf e)))
      else Inl (statementEnvironmentFailure e))"

fun run_all :: "'d env \<Rightarrow> 'd \<Rightarrow> operation list \<Rightarrow> js_error + 'd" where
  "run_all env data [] = Inr data"
| "run_all env data (oper # opers) =
     bindE (runCarriedOperation env data oper) (\<lambda>(_, data'). run_all env data' opers)"

definition OPERATIONS_UNREADABLE :: jsstring where
  "OPERATIONS_UNREADABLE = js ''the carried operations text is not a JSON array of {entryId, sql, params}''"

text \<open>\<open>None\<close> when the dry run passed; its changes are rolled back, so no database is returned.\<close>

definition dryRunCarriedOperations ::
  "'d env \<Rightarrow> 'd \<Rightarrow> field \<Rightarrow> host_failure + (refusal_cause \<times> jsstring option) option"
where
  "dryRunCarriedOperations env data operationsText =
     (case operationsOf operationsText of
        None \<Rightarrow> Inr (Some (STATEMENT_FAILED_CAUSE, Some OPERATIONS_UNREADABLE))
      | Some opers \<Rightarrow>
          (case run_all env data opers of
             Inr _ \<Rightarrow> Inr None
           | Inl e \<Rightarrow> bindE (deterministicRefusalOf e STATEMENT_FAILED_CAUSE ROWID_CEILING) (\<lambda>r. Inr (Some r))))"

subsection \<open>PARTICIPANT_PREPARE\<close>

definition command_epoch :: "pcommand \<Rightarrow> int" where
  "command_epoch c = (case c_transactionEpoch c of Some (Num (Fin q)) \<Rightarrow> \<lfloor>q\<rfloor> | _ \<Rightarrow> 0)"

definition preparedRowOf ::
  "committed \<Rightarrow> ptx_state \<Rightarrow> refusal_cause option \<Rightarrow> jsstring option \<Rightarrow> ptx_row"
where
  "preparedRowOf cm state cause detail =
     (let c = cm_command cm in
      \<lparr>r_transactionId = to_text (c_transactionId c), r_participantId = to_text (c_participantId c),
       r_sessionId = textOrNull (c_sessionId c), r_commitMode = to_text (c_commitMode c),
       r_transactionEpoch = command_epoch c, r_state = state,
       r_operationsText = textOrNull (c_operationsText c),
       r_validationText = textOrNull (c_validationText c),
       r_preparedDigest = textOrNull (c_preparedDigest c),
       r_prepareEntryId = textOrNull (c_entryId c), r_prepareIndex = Some (cm_index cm),
       r_prepareTerm = Some (cm_term cm), r_decision = None, r_decisionDigest = None,
       r_decisionEntryId = None, r_decisionIndex = None, r_decisionTerm = None,
       r_refusalCause = cause, r_refusalDetail = detail\<rparr>)"

definition refusePrepare :: "committed \<Rightarrow> 'd pdb \<Rightarrow> refusal_cause \<times> jsstring option \<Rightarrow> 'd applied" where
  "refusePrepare cm db refusal =
     bindE (insertParticipantTransactionRow db (preparedRowOf cm REFUSED (Some (fst refusal)) (snd refusal)))
       (\<lambda>db'. Inr (APPLIED,
         [ClearRowKeys (c_participantId (cm_command cm)), LogRowRefused (fst refusal),
          Answer (c_entryId (cm_command cm))
            (Refusal PREPARE_REFUSED (Some (rowAnswer db' (cm_command cm))) None False)],
         db'))"

definition prepareOverRow :: "'d env \<Rightarrow> committed \<Rightarrow> 'd pdb \<Rightarrow> ptx_row \<Rightarrow> committed_outcome \<times> effect list \<times> 'd pdb" where
  "prepareOverRow env cm db row =
     (let c = cm_command cm; digest = preparedDigestOf (en_hash env) (c_operationsText c) (c_validationText c) in
      if r_state row \<noteq> PREPARED
      then (RECORDED_ONLY, consumedRefusal cm TERMINAL (Some (row_outcome (Some row))) None, db)
      else if Text digest \<noteq> c_preparedDigest c
      then (RECORDED_ONLY,
            consumedRefusal cm PREPARE_REFUSED (Some (row_outcome (Some row))) (Some DIGEST_INVALID), db)
      else if Some digest \<noteq> r_preparedDigest row
      then (RECORDED_ONLY, consumedRefusal cm PREPARE_CONTENT_CONFLICT (Some (row_outcome (Some row))) None, db)
      else (REPLAYED, [Answer (c_entryId c) (Accepted (row_outcome (Some row)) True False None)], db))"

definition refuseOriginMismatch :: "committed \<Rightarrow> 'd pdb \<Rightarrow> 'd applied" where
  "refuseOriginMismatch cm db =
     bindE (refusePrepare cm db (ORIGIN_MISMATCH, None)) (\<lambda>(out, effs, db').
       Inr (out, LogOriginMismatch (carriedOriginIndexOf (c_validationText (cm_command cm))) # effs, db'))"

text \<open>
  \<open>carriedOriginIndexOf\<close> answers \<open>null\<close> where the text names no origin and the recorded origin reads
  as \<open>undefined\<close> where there is none, so the two differ also when both are absent.
\<close>

definition origin_matches :: "int option \<Rightarrow> (int \<times> int) option \<Rightarrow> bool" where
  "origin_matches carried origin \<longleftrightarrow>
     (case (carried, origin) of (Some i, Some (j, _)) \<Rightarrow> i = j | _ \<Rightarrow> False)"

definition applyParticipantPrepare :: "'d env \<Rightarrow> service \<Rightarrow> committed \<Rightarrow> 'd pdb \<Rightarrow> 'd applied" where
  "applyParticipantPrepare env sv cm db =
     (let c = cm_command cm in
      case identityRefusalOf (carrier_of c) (sv_partitionId sv) of
        Some refusal \<Rightarrow> Inr (RECORDED_ONLY, consumedRefusal cm refusal None None, db)
      | None \<Rightarrow>
          (case participant_row db c of
             Some row \<Rightarrow> Inr (prepareOverRow env cm db row)
           | None \<Rightarrow>
               if Text (preparedDigestOf (en_hash env) (c_operationsText c) (c_validationText c)) \<noteq> c_preparedDigest c
               then refusePrepare cm db (DIGEST_INVALID, None)
               else
                 bindE (readPartitionWriteOrigin db) (\<lambda>origin.
                 if \<not> origin_matches (carriedOriginIndexOf (c_validationText c)) origin
                 then refuseOriginMismatch cm db
                 else if isPartitionReserved db
                 then Inr (RESERVED_REFUSED,
                        [LogRefused RESERVED,
                         Answer (c_entryId c) (Refusal RESERVED (Some (row_outcome None)) None True)], db)
                 else
                   bindE (validationTextHereOf env sv db) (\<lambda>here.
                   if c_validationText c \<noteq> opt_field here
                   then refusePrepare cm db (CONFLICT, None)
                   else
                     bindE (dryRunCarriedOperations env (pd_data db) (c_operationsText c)) (\<lambda>dryRun.
                     case dryRun of
                       Some refusal \<Rightarrow> refusePrepare cm db refusal
                     | None \<Rightarrow>
                         (case admitCdcOwedWork (pd_ledger db) (prepare_slots (sv_cdc sv) db c) of
                            CDC_ADMITTED \<Rightarrow>
                              bindE (insertParticipantTransactionRow db (preparedRowOf cm PREPARED None None))
                                (\<lambda>db'. Inr (APPLIED,
                                   [Answer (c_entryId c) (Accepted (rowAnswer db' c) False False None)], db'))
                          | refused \<Rightarrow>
                              Inr (RECORDED_ONLY, [Answer (c_entryId c) (CapacityRefusal refused)], db)))))))"

subsection \<open>PARTICIPANT_DECISION\<close>

definition decidedOf :: "committed \<Rightarrow> ptx_state \<Rightarrow> (refusal_cause \<times> jsstring option) option \<Rightarrow> decided" where
  "decidedOf cm state refusal =
     (let c = cm_command cm in
      \<lparr>dc_state = state, dc_decision = textOrNull (c_decision c),
       dc_decisionDigest = textOrNull (c_decisionDigest c), dc_decisionEntryId = textOrNull (c_entryId c),
       dc_decisionIndex = cm_index cm, dc_decisionTerm = cm_term cm,
       dc_refusalCause = map_option fst refusal,
       dc_refusalDetail = (case refusal of None \<Rightarrow> None | Some (_, d) \<Rightarrow> d)\<rparr>)"

definition decide :: "committed \<Rightarrow> 'd pdb \<Rightarrow> ptx_state \<Rightarrow> (refusal_cause \<times> jsstring option) option \<Rightarrow> host_failure + 'd pdb" where
  "decide cm db state refusal =
     updateParticipantTransactionDecided db (to_text (c_transactionId (cm_command cm)))
       (to_text (c_participantId (cm_command cm))) (decidedOf cm state refusal)"

definition operationResultsOf :: "'d pdb \<Rightarrow> ptx_row \<Rightarrow> (int option \<times> int option) list" where
  "operationResultsOf db row =
     (let opers = (case operationsOf (opt_field (r_operationsText row)) of None \<Rightarrow> [] | Some os \<Rightarrow> os) in
      map (\<lambda>ordinal.
             case readCommittedStatementOutcome (pd_outcomes db)
                    (operationOutcomeKeyOf (Text (r_participantId row)) ordinal) of
               None \<Rightarrow> (None, None)
             | Some w \<Rightarrow> (w_changes w, w_lastInsertRowid w))
        [0 ..< length opers])"

text \<open>
  The outcome row of an operation whose key is taken fails as the primary key's violation, an error
  of the driver that the caller classifies like any other.
\<close>

definition outcome_key_error :: js_error where
  "outcome_key_error = \<lparr>er_code = Some (js ''SQLITE_CONSTRAINT_PRIMARYKEY''), er_name = js ''SqliteError'',
     er_message = js ''UNIQUE constraint failed: _partition_statement_outcomes.entry_key'', er_refusalLayer = None\<rparr>"

text \<open>The operations of a \<open>COMMIT\<close> in order: results, captured events, outcome table, data.\<close>

fun run_committed ::
  "'d env \<Rightarrow> service \<Rightarrow> committed \<Rightarrow> nat \<Rightarrow> operation list \<Rightarrow> outcome_table \<Rightarrow> 'd \<Rightarrow>
   js_error + (statement_result list \<times> captured list \<times> outcome_table \<times> 'd)"
where
  "run_committed env sv cm ordinal [] table data = Inr ([], [], table, data)"
| "run_committed env sv cm ordinal (oper # opers) table data =
     bindE (runCarriedOperation env data oper) (\<lambda>(result, data').
       let c = cm_command cm in
       case recordCommittedStatementOutcome table (operationOutcomeKeyOf (c_participantId c) ordinal)
              (outcome_of APPLIED (cm_index cm) (cm_term cm) None (Some result) None) of
         Inl _ \<Rightarrow> Inl outcome_key_error
       | Inr table' \<Rightarrow>
           (let event = captureCommittedOperationCdc (en_build env) (sv_cdc sv) data' c (cm_index cm)
                  (cm_term cm) oper (changes result) ordinal
            in bindE (run_committed env sv cm (Suc ordinal) opers table' data')
                 (\<lambda>(results, events, table'', data'').
                    Inr (result # results, (case event of None \<Rightarrow> events | Some e \<Rightarrow> e # events),
                         table'', data''))))"

definition refuseCommit :: "committed \<Rightarrow> 'd pdb \<Rightarrow> refusal_cause \<times> jsstring option \<Rightarrow> 'd applied" where
  "refuseCommit cm db refusal =
     bindE (decide cm db REFUSED (Some refusal)) (\<lambda>db'.
       let answer = rowAnswer db' (cm_command cm) in
       Inr (APPLIED,
            [ClearRowKeys (c_participantId (cm_command cm)), ReadmitReservedWrites] @
            alarmRefusal cm COMMIT_REFUSED (Some answer) (ra_refusalCause answer), db'))"

definition commit_effects ::
  "committed \<Rightarrow> 'd pdb \<Rightarrow> nat \<Rightarrow> int option \<Rightarrow> statement_result list \<Rightarrow> cdc_effect list \<Rightarrow> effect list"
where
  "commit_effects cm db n generation results cdc =
     (let c = cm_command cm in
      ReadmitReservedWrites #
      (case generation of Some g \<Rightarrow> RecordRowKeys (c_participantId c) g | None \<Rightarrow> ClearRowKeys (c_participantId c)) #
      (if 0 < n then [WriteTraffic n] else []) @
      [Answer (c_entryId c) (Accepted (rowAnswer db c) False False
         (Some (map (\<lambda>r. (Some (changes r), lastInsertRowid r)) results)))] @
      map CdcEffect cdc @ (if 0 < n then [SizeUpdate] else []))"

definition ledger_result :: "ledger_error + 'a \<Rightarrow> host_failure + 'a" where
  "ledger_result r = (case r of Inl e \<Rightarrow> Inl (LedgerFailure e) | Inr a \<Rightarrow> Inr a)"

definition commitPrepared :: "'d env \<Rightarrow> service \<Rightarrow> committed \<Rightarrow> 'd pdb \<Rightarrow> ptx_row \<Rightarrow> 'd applied" where
  "commitPrepared env sv cm db row =
     bindE (validationTextHereOf env sv db) (\<lambda>here.
     if r_validationText row \<noteq> here then refuseCommit cm db (COMMIT_BASE_MOVED, None)
     else
       (case operationsOf (opt_field (r_operationsText row)) of
          None \<Rightarrow> refuseCommit cm db (COMMIT_STATEMENT_FAILED, Some OPERATIONS_UNREADABLE)
        | Some opers \<Rightarrow>
            (case run_committed env sv cm 0 opers (pd_outcomes db) (pd_data db) of
               Inl e \<Rightarrow>
                 bindE (deterministicRefusalOf e COMMIT_STATEMENT_FAILED COMMIT_STATEMENT_FAILED)
                   (\<lambda>refusal. refuseCommit cm db refusal)
             | Inr (results, events, table', data') \<Rightarrow>
                 bindE (decide cm (db\<lparr>pd_outcomes := table', pd_data := data'\<rparr>) COMMITTED None) (\<lambda>db1.
                 bindE (if 0 < length opers
                        then bindE (advancePartitionWriteGeneration db1) (\<lambda>db2.
                               bindE (readPartitionWriteGeneration db2) (\<lambda>g. Inr (Some g, db2)))
                        else Inr (None, db1)) (\<lambda>(generation, db2).
                 bindE (ledger_result (recordCommittedOperationCdc (sv_cdc sv) events (pd_ledger db2)))
                   (\<lambda>(_, cdc, l').
                 Inr (APPLIED,
                      commit_effects cm db2 (length opers) generation results cdc,
                      db2\<lparr>pd_ledger := l'\<rparr>)))))))"

definition decideOverPrepared :: "'d env \<Rightarrow> service \<Rightarrow> committed \<Rightarrow> 'd pdb \<Rightarrow> ptx_row \<Rightarrow> 'd applied" where
  "decideOverPrepared env sv cm db row =
     (let c = cm_command cm in
      if \<not> decisionMatchesPreparedRow c (r_preparedDigest row)
      then Inr (RECORDED_ONLY,
             consumedRefusal cm DECISION_DIGEST_MISMATCH (Some (row_outcome (Some row))) None, db)
      else if c_decision c = Text COMMIT then commitPrepared env sv cm db row
      else
        bindE (decide cm db ROLLED_BACK None) (\<lambda>db'.
          Inr (APPLIED,
               [ClearRowKeys (c_participantId c), ReadmitReservedWrites,
                Answer (c_entryId c) (Accepted (rowAnswer db' c) False False None)], db')))"

definition replayDecision :: "committed \<Rightarrow> 'd pdb \<Rightarrow> ptx_row \<Rightarrow> committed_outcome \<times> effect list \<times> 'd pdb" where
  "replayDecision cm db row =
     (REPLAYED,
      [Answer (c_entryId (cm_command cm)) (Accepted (row_outcome (Some row)) False True
         (if r_state row = COMMITTED then Some (operationResultsOf db row) else None))], db)"

definition answerRefusedRollback :: "committed \<Rightarrow> 'd pdb \<Rightarrow> ptx_row \<Rightarrow> committed_outcome \<times> effect list \<times> 'd pdb" where
  "answerRefusedRollback cm db row =
     (RECORDED_ONLY,
      [Answer (c_entryId (cm_command cm)) (Accepted (row_outcome (Some row)) False False None)], db)"

definition same_decision :: "pcommand \<Rightarrow> jsstring \<Rightarrow> ptx_row \<Rightarrow> bool" where
  "same_decision c d row \<longleftrightarrow> c_decision c = Text d \<and> c_decisionDigest c = opt_field (r_decisionDigest row)"

definition decision_conflict :: "committed \<Rightarrow> 'd pdb \<Rightarrow> ptx_row \<Rightarrow> committed_outcome \<times> effect list \<times> 'd pdb" where
  "decision_conflict cm db row =
     (RECORDED_ONLY, consumedRefusal cm DECISION_CONFLICT (Some (row_outcome (Some row))) None, db)"

text \<open>
  The handler of each durable state; the volatile states never are a row's state, and their entry in
  the table of handlers is missing.
\<close>

fun DECISION_OVER_STATE :: "ptx_state \<Rightarrow> 'd env \<Rightarrow> service \<Rightarrow> committed \<Rightarrow> 'd pdb \<Rightarrow> ptx_row \<Rightarrow> 'd applied" where
  "DECISION_OVER_STATE PREPARED env sv cm db row = decideOverPrepared env sv cm db row"
| "DECISION_OVER_STATE COMMITTED env sv cm db row =
     Inr (if same_decision (cm_command cm) COMMIT row then replayDecision cm db row
          else decision_conflict cm db row)"
| "DECISION_OVER_STATE ROLLED_BACK env sv cm db row =
     Inr (if same_decision (cm_command cm) ROLLBACK row then replayDecision cm db row
          else decision_conflict cm db row)"
| "DECISION_OVER_STATE REFUSED env sv cm db row =
     Inr (if c_decision (cm_command cm) = Text ROLLBACK then answerRefusedRollback cm db row
          else (RECORDED_ONLY, alarmRefusal cm NOT_PREPARED (Some (row_outcome (Some row)))
                  (r_refusalCause row), db))"
| "DECISION_OVER_STATE _ env sv cm db row = Inl ParticipantRowViolation"

definition tombstone :: "committed \<Rightarrow> ptx_row" where
  "tombstone cm =
     (let c = cm_command cm in
      \<lparr>r_transactionId = to_text (c_transactionId c), r_participantId = to_text (c_participantId c),
       r_sessionId = textOrNull (c_sessionId c), r_commitMode = to_text (c_commitMode c),
       r_transactionEpoch = command_epoch c, r_state = ROLLED_BACK, r_operationsText = None,
       r_validationText = None, r_preparedDigest = textOrNull (c_preparedDigest c),
       r_prepareEntryId = None, r_prepareIndex = None, r_prepareTerm = None,
       r_decision = textOrNull (c_decision c), r_decisionDigest = textOrNull (c_decisionDigest c),
       r_decisionEntryId = textOrNull (c_entryId c), r_decisionIndex = Some (cm_index cm),
       r_decisionTerm = Some (cm_term cm), r_refusalCause = None, r_refusalDetail = None\<rparr>)"

definition decideAbsent :: "committed \<Rightarrow> 'd pdb \<Rightarrow> 'd applied" where
  "decideAbsent cm db =
     (let c = cm_command cm in
      if c_decision c = Text COMMIT
      then Inr (RECORDED_ONLY, alarmRefusal cm NOT_PREPARED (Some (row_outcome None)) None, db)
      else
        bindE (insertParticipantTransactionRow db (tombstone cm)) (\<lambda>db'.
          Inr (APPLIED,
               [ClearRowKeys (c_participantId c),
                Answer (c_entryId c) (Accepted (rowAnswer db' c) False False None)], db')))"

definition applyParticipantDecision :: "'d env \<Rightarrow> service \<Rightarrow> committed \<Rightarrow> 'd pdb \<Rightarrow> 'd applied" where
  "applyParticipantDecision env sv cm db =
     (let c = cm_command cm;
          refused = (case identityRefusalOf (carrier_of c) (sv_partitionId sv) of
                       Some code \<Rightarrow> Some code
                     | None \<Rightarrow> decisionBindingRefusalOf (en_ns env) (en_hash env) (binding_of c))
      in case refused of
           Some code \<Rightarrow> Inr (RECORDED_ONLY, consumedRefusal cm code None None, db)
         | None \<Rightarrow>
             (case participant_row db c of
                None \<Rightarrow> decideAbsent cm db
              | Some row \<Rightarrow>
                  if Text (r_commitMode row) \<noteq> c_commitMode c \<or> r_transactionEpoch row \<noteq> command_epoch c
                  then Inr (RECORDED_ONLY,
                         consumedRefusal cm IDENTITY_MISMATCH (Some (row_outcome (Some row))) None, db)
                  else DECISION_OVER_STATE (r_state row) env sv cm db row))"

subsection \<open>PARTICIPANT_GENERATION_ORIGIN and the dispatch\<close>

definition applyGenerationOrigin :: "'d env \<Rightarrow> service \<Rightarrow> committed \<Rightarrow> 'd pdb \<Rightarrow> 'd applied" where
  "applyGenerationOrigin env sv cm db =
     (let c = cm_command cm in
      if c_partitionId c \<noteq> Text (sv_partitionId sv)
      then Inr (RECORDED_ONLY, consumedRefusal cm IDENTITY_MISMATCH None None, db)
      else
        bindE (if isCoordinatorTable (sv_tableName sv)
               then (case installTransactionSchemaEnforcement (en_uc env) (en_schema env (pd_data db)) of
                       None \<Rightarrow> Inl SchemaEnforcementUnavailable
                     | Some s \<Rightarrow> Inr (db\<lparr>pd_data := en_putSchema env (pd_data db) s\<rparr>))
               else Inr db) (\<lambda>db1.
        bindE (readPartitionWriteOrigin db1) (\<lambda>recorded.
        case recorded of
          Some (i, t) \<Rightarrow> Inr (REPLAYED, [Answer (c_entryId c) (OriginAnswer i t True)], db1)
        | None \<Rightarrow>
            bindE (recordPartitionWriteOrigin db1 (cm_index cm) (cm_term cm)) (\<lambda>db2.
            Inr (APPLIED,
                 [OriginRecorded (cm_index cm) (cm_term cm),
                  Answer (c_entryId c) (OriginAnswer (cm_index cm) (cm_term cm) False)], db2)))))"

definition matchesOwn :: "envelope option \<Rightarrow> envelope \<Rightarrow> bool" where
  "matchesOwn carried own \<longleftrightarrow> carried = Some own"

definition noteExecutionEnvelope :: "service \<Rightarrow> pcommand \<Rightarrow> effect list" where
  "noteExecutionEnvelope sv c =
     (if matchesOwn (c_executionEnvelope c) (sv_envelope sv) then []
      else [EnvelopeMismatch (c_executionEnvelope c)])"

definition applyParticipantCommand :: "'d env \<Rightarrow> service \<Rightarrow> committed \<Rightarrow> 'd pdb \<Rightarrow> 'd applied" where
  "applyParticipantCommand env sv cm db =
     (case c_type (cm_command cm) of
        PARTICIPANT_GENERATION_ORIGIN \<Rightarrow> applyGenerationOrigin env sv cm db
      | PARTICIPANT_PREPARE \<Rightarrow>
          bindE (applyParticipantPrepare env sv cm db) (\<lambda>(out, effs, db').
            Inr (out, noteExecutionEnvelope sv (cm_command cm) @ effs, db'))
      | PARTICIPANT_DECISION \<Rightarrow>
          bindE (applyParticipantDecision env sv cm db) (\<lambda>(out, effs, db').
            Inr (out, noteExecutionEnvelope sv (cm_command cm) @ effs, db')))"

definition applyCommittedTransactionCommand :: "'d env \<Rightarrow> service \<Rightarrow> committed \<Rightarrow> 'd pdb \<Rightarrow> 'd applied" where
  "applyCommittedTransactionCommand env sv cm db =
     bindE (applyParticipantCommand env sv cm db) (\<lambda>(out, effs, db').
       Inr (out, effs @ [EntryCommitted], db'))"

end
