(* ===== verification/EntryApply.thy ===== *)
theory EntryApply
  imports ParticipantApply
begin

text \<open>
  The application of one committed log entry:
  \<open>src/src/partition/partition-service-entry-apply-base.js\<close> (\<open>applyCommittedEntry\<close> and what it calls),
  \<open>src/src/partition/partition-committed-command-admission.js\<close> (what may be proposed),
  \<open>settleReservedCommittedStatement\<close> of the participant owner and
  \<open>src/src/partition/partition-coordinator-settlement.js\<close>.

  An application throws (\<open>Inl\<close>: the application transaction rolls back and the applied index stays) or
  returns the outcome, the effects and the new database.
\<close>

subsection \<open>Commands\<close>

record sql_command =
  q_type :: sql_type
  q_entryId :: field
  q_sql :: field
  q_params :: "json list"
  q_sessionId :: field
  q_timestamp :: field
  q_proposedBy :: field
  q_proposedAt :: "jsnum option"
  q_snapshot :: bool

datatype log_command =
    SqlCommand sql_command
  | ParticipantCommand pcommand
  | CdcDelivered ack_command
  | CoordinatorSettlement settlement_command
  | UnknownCommand field

fun command_entryId :: "log_command \<Rightarrow> field" where
  "command_entryId (SqlCommand q) = q_entryId q"
| "command_entryId (ParticipantCommand c) = c_entryId c"
| "command_entryId (CdcDelivered k) = k_entryId k"
| "command_entryId (CoordinatorSettlement s) = sc_entryId s"
| "command_entryId (UnknownCommand f) = f"

subsection \<open>Admission before consensus\<close>

datatype origin = WRITE_PATH | TRANSACTION_OWNER | CDC_DELIVERY_OWNER | COORDINATOR_OWNER

datatype admission =
    Admitted
  | CommandTypeUnknown
  | EntryIdInvalid
  | StatementMissing
  | ParticipantOriginRefused
  | ParticipantBytesInvalid
  | CdcOriginRefused
  | CdcBytesInvalid
  | SettlementOriginRefused
  | SettlementBytesInvalid

definition isInvalidEntryId :: "field \<Rightarrow> bool" where
  "isInvalidEntryId f \<longleftrightarrow> f \<noteq> Undef \<and> f \<noteq> Null \<and> \<not> isNonEmptyString f"

definition sqlCommandRefusal :: "sql_command \<Rightarrow> admission" where
  "sqlCommandRefusal q = (if isNonEmptyString (q_sql q) then Admitted else StatementMissing)"

definition participantCommandRefusal ::
  "(xnum \<Rightarrow> jsstring) \<Rightarrow> (jsstring \<Rightarrow> jsstring) \<Rightarrow> pcommand \<Rightarrow> origin \<Rightarrow> admission"
where
  "participantCommandRefusal ns h c origin =
     (if origin \<noteq> TRANSACTION_OWNER then ParticipantOriginRefused
      else if isPinnedParticipantCommand ns h c then Admitted else ParticipantBytesInvalid)"

definition cdcCommandRefusal ::
  "(xnum \<Rightarrow> jsstring) \<Rightarrow> (jsstring \<Rightarrow> jsstring) \<Rightarrow> ack_command \<Rightarrow> origin \<Rightarrow> admission"
where
  "cdcCommandRefusal ns h c origin =
     (if origin \<noteq> CDC_DELIVERY_OWNER then CdcOriginRefused
      else if isPinnedCdcAcknowledgementCommand ns h c then Admitted else CdcBytesInvalid)"

fun commandRefusalByKind :: "'d env \<Rightarrow> log_command \<Rightarrow> origin \<Rightarrow> admission" where
  "commandRefusalByKind env (CoordinatorSettlement s) origin =
     (if origin \<noteq> COORDINATOR_OWNER then SettlementOriginRefused
      else if isPinnedCoordinatorSettlementCommand (en_ns env) (en_hash env) s then Admitted else SettlementBytesInvalid)"
| "commandRefusalByKind env (CdcDelivered k) origin = cdcCommandRefusal (en_ns env) (en_hash env) k origin"
| "commandRefusalByKind env (ParticipantCommand c) origin =
     participantCommandRefusal (en_ns env) (en_hash env) c origin"
| "commandRefusalByKind env (SqlCommand q) origin = sqlCommandRefusal q"
| "commandRefusalByKind env (UnknownCommand f) origin = CommandTypeUnknown"

fun isCommittedCommandType :: "log_command \<Rightarrow> bool" where
  "isCommittedCommandType (UnknownCommand _) = False"
| "isCommittedCommandType _ = True"

definition admitCommittedCommand :: "'d env \<Rightarrow> log_command \<Rightarrow> origin \<Rightarrow> admission" where
  "admitCommittedCommand env cmd origin =
     (if \<not> isCommittedCommandType cmd then CommandTypeUnknown
      else if isInvalidEntryId (command_entryId cmd) then EntryIdInvalid
      else commandRefusalByKind env cmd origin)"

subsection \<open>The gate\<close>

fun committedCommandGate :: "log_command \<Rightarrow> host_failure + unit" where
  "committedCommandGate (UnknownCommand _) = Inl (CommandRefused UNRECOGNISED)"
| "committedCommandGate (SqlCommand q) =
     (if isCommittedStatementKeyed (q_entryId q) then Inr () else Inl (CommandRefused ENTRY_ID_MISSING_REFUSED))"
| "committedCommandGate _ = Inr ()"

subsection \<open>Effects and settlements\<close>

datatype entry_effect =
    WitnessHlc
  | ParticipantEffect effect
  | AckEffect ack_effect
  | StatementCdc cdc_effect
  | AnswerWrite field "host_failure + write_answer"
  | ReparkOrAnswerReserved field
  | AnswerCapacity field cdc_admission
  | AnswerSettlement field settlement_result int int
  | CommittedWriteTraffic
  | RegisterMigrationDefault jsstring
  | LogApplyFailed
  | EmitCommitted

type_synonym 'd entry_applied = "host_failure + (committed_outcome \<times> entry_effect list \<times> 'd pdb)"

definition settleRecordedCommittedStatement ::
  "service \<Rightarrow> sql_command \<Rightarrow> outcome_row \<Rightarrow> committed_outcome \<times> entry_effect list"
where
  "settleRecordedCommittedStatement sv q recorded =
     (let answer = AnswerWrite (q_entryId q)
            (answerSettledStatement (sv_replica sv) recorded (q_entryId q) (q_timestamp q))
      in if w_outcome recorded \<noteq> APPLIED then (STATEMENT_FAILED, [answer])
         else (REPLAYED, [answer, EmitCommitted]))"

definition settleReservedCommittedStatement :: "field \<Rightarrow> committed_outcome \<times> entry_effect list" where
  "settleReservedCommittedStatement entryId = (RESERVED_REFUSED, [ReparkOrAnswerReserved entryId])"

definition settleCdcOwedRefusal :: "field \<Rightarrow> cdc_admission \<Rightarrow> committed_outcome \<times> entry_effect list" where
  "settleCdcOwedRefusal entryId refused = (RECORDED_ONLY, [AnswerCapacity entryId refused])"

definition settleFailedCommittedStatement ::
  "sql_command \<Rightarrow> js_error \<Rightarrow> jsstring \<Rightarrow> int \<Rightarrow> int \<Rightarrow> write_identity \<Rightarrow> 'd pdb \<Rightarrow> 'd entry_applied"
where
  "settleFailedCommittedStatement q e entryKey index trm ident db =
     (if \<not> isDeterministicStatementFailure e True then Inl (statementEnvironmentFailure e)
      else
        bindE (recordCommittedStatementOutcome (pd_outcomes db) entryKey
                 (outcome_of STATEMENT_FAILED index trm (Some e) None None)) (\<lambda>table.
        Inr (STATEMENT_FAILED,
             [LogApplyFailed,
              AnswerWrite (q_entryId q) (Inr (FailedAnswer (Some (failureCodeOf e)) (Some (er_message e))
                (refusalLayerFieldOf (Some (failureCodeOf e)) (Some (er_message e))) ident))],
             db\<lparr>pd_outcomes := table\<rparr>)))"

subsection \<open>Coordinator settlements\<close>

definition retainedResult :: "'d env \<Rightarrow> outcome_row \<Rightarrow> settlement_result option" where
  "retainedResult env recorded =
     (case w_ownerResultText recorded of
        None \<Rightarrow> None
      | Some result \<Rightarrow>
          (case json_parse result of
             None \<Rightarrow> None
           | Some v \<Rightarrow> canonicalTransactionSettlementResult (en_ns env) (en_hash env) v))"

definition applyCoordinatorSettlement ::
  "'d env \<Rightarrow> service \<Rightarrow> settlement_command \<Rightarrow> int \<Rightarrow> int \<Rightarrow> 'd pdb \<Rightarrow> 'd entry_applied"
where
  "applyCoordinatorSettlement env sv s index trm db =
     (if sv_tableName sv \<noteq> Some SQL_TRANSACTIONS \<or> sc_partitionId s \<noteq> Text (sv_partitionId sv) \<or>
         \<not> isPinnedCoordinatorSettlementCommand (en_ns env) (en_hash env) s
      then Inl SettlementFailure
      else
        (let entryKey = js ''entry:'' @ to_text (sc_entryId s) in
         case readCommittedStatementOutcome (pd_outcomes db) entryKey of
           Some recorded \<Rightarrow>
             (case retainedResult env recorded of
                Some result \<Rightarrow>
                  Inr (REPLAYED,
                    [AnswerSettlement (sc_entryId s) result (w_logIndex recorded) (w_term recorded)], db)
              | None \<Rightarrow> Inl SettlementFailure)
         | None \<Rightarrow>
             if isPartitionReserved db
             then (let (out, effs) = settleReservedCommittedStatement (sc_entryId s) in Inr (out, effs, db))
             else
               (let (answer, rows') = applyTransactionSettlement (en_ns env) (en_hash env)
                      (en_transactions env (pd_data db)) (case sc_settlement s of Some v \<Rightarrow> v | None \<Rightarrow> JNull)
                in case canonicalTransactionSettlementResult (en_ns env) (en_hash env) (result_json answer) of
                     None \<Rightarrow> Inl SettlementFailure
                   | Some result \<Rightarrow>
                       bindE (recordCommittedStatementOutcome (pd_outcomes db) entryKey
                         (outcome_of APPLIED index trm None None
                           (Some (stringify (en_ns env) (result_json result))))) (\<lambda>table.
                       bindE (let db1 = db\<lparr>pd_outcomes := table,
                                pd_data := (if rows' = en_transactions env (pd_data db) then pd_data db
                                  else en_putTransactions env (pd_data db) rows')\<rparr> in
                              if sr_outcome result = SETTLE_APPLIED
                              then advancePartitionWriteGeneration db1 else Inr db1) (\<lambda>db2.
                       Inr (APPLIED, [AnswerSettlement (sc_entryId s) result index trm], db2))))))"

subsection \<open>SQL statements\<close>

definition sql_statement :: "sql_command \<Rightarrow> statement" where
  "sql_statement q = \<lparr>st_type = q_type q, st_sql = to_text (q_sql q), st_params = q_params q, st_carried = False\<rparr>"

definition sql_entry :: "sql_command \<Rightarrow> int \<Rightarrow> cdc_entry" where
  "sql_entry q n = \<lparr>e_type = q_type q, e_sql = to_text (q_sql q), e_params = q_params q, e_entryId = q_entryId q,
     e_sessionId = q_sessionId q, e_timestamp = q_timestamp q, e_proposedBy = q_proposedBy q,
     e_proposedAt = q_proposedAt q, e_changes = n\<rparr>"

definition lift_applied :: "(effect \<Rightarrow> entry_effect) \<Rightarrow> 'd applied \<Rightarrow> 'd entry_applied" where
  "lift_applied f r = bindE r (\<lambda>(out, effs, db). Inr (out, map f effs, db))"

definition applyCommittedStatement ::
  "'d env \<Rightarrow> service \<Rightarrow> sql_command \<Rightarrow> int \<Rightarrow> int \<Rightarrow> 'd pdb \<Rightarrow> 'd entry_applied"
where
  "applyCommittedStatement env sv q index trm db =
     bindE (readPartitionWriteOrigin db) (\<lambda>origin.
     if isTransactionSchemaWriteRefused (en_uc env) (en_schema env (pd_data db)) (sv_tableName sv) (origin \<noteq> None)
     then Inl SchemaEnforcementUnavailable
     else
       (let entryKey = js ''entry:'' @ to_text (q_entryId q) in
        bindE (buildCommittedWriteIdentity (sv_replica sv) (q_entryId q) (q_timestamp q) (q_proposedBy q) index trm)
          (\<lambda>ident.
        case readCommittedStatementOutcome (pd_outcomes db) entryKey of
          Some recorded \<Rightarrow>
            (let (out, effs) = settleRecordedCommittedStatement sv q recorded in Inr (out, effs, db))
        | None \<Rightarrow>
            if isPartitionReserved db
            then (let (out, effs) = settleReservedCommittedStatement (q_entryId q) in Inr (out, effs, db))
            else
              (case admitCdcOwedWork (pd_ledger db)
                      (statement_slots (sv_cdc sv) (q_type q = MIGRATION_ALTER_TABLE) (q_snapshot q)) of
                 CDC_ADMITTED \<Rightarrow>
                   (case en_run env (pd_data db) (sql_statement q) of
                      Inl e \<Rightarrow> settleFailedCommittedStatement q e entryKey index trm ident db
                    | Inr (info, data') \<Rightarrow>
                        bindE (recordCommittedStatementOutcome (pd_outcomes db) entryKey
                          (outcome_of APPLIED index trm None (Some info) None)) (\<lambda>table.
                        bindE (ledger_result (recordCommittedStatementCdc (en_build env) (sv_cdc sv) data'
                          (sql_entry q (changes info)) (q_snapshot q) index trm entryKey (pd_ledger db)))
                          (\<lambda>(_, cdc, l').
                        bindE (advancePartitionWriteGeneration
                          (db\<lparr>pd_outcomes := table, pd_data := data', pd_ledger := l'\<rparr>)) (\<lambda>db'.
                        Inr (APPLIED,
                             map StatementCdc cdc @ [CommittedWriteTraffic] @
                             (if q_type q = MIGRATION_ALTER_TABLE
                              then [RegisterMigrationDefault (to_text (q_sql q))] else []) @
                             [AnswerWrite (q_entryId q)
                                (Inr (AppliedAnswer (changes info) (lastInsertRowid info) ident)),
                              EmitCommitted], db')))))
               | refused \<Rightarrow>
                   (let (out, effs) = settleCdcOwedRefusal (q_entryId q) refused in Inr (out, effs, db))))))"

definition applyCommittedEntry ::
  "'d env \<Rightarrow> service \<Rightarrow> log_command \<Rightarrow> int \<Rightarrow> int \<Rightarrow> 'd pdb \<Rightarrow> 'd entry_applied"
where
  "applyCommittedEntry env sv cmd index trm db =
     bindE (committedCommandGate cmd) (\<lambda>_.
     bindE (case cmd of
         CoordinatorSettlement s \<Rightarrow> applyCoordinatorSettlement env sv s index trm db
       | CdcDelivered k \<Rightarrow>
           bindE (ledger_result (applyCdcAcknowledgementCommand (en_ns env) (en_hash env) (sv_partitionId sv) k
                    index trm (pd_ledger db)))
             (\<lambda>(out, effs, l'). Inr (out, map AckEffect effs, db\<lparr>pd_ledger := l'\<rparr>))
       | ParticipantCommand c \<Rightarrow>
           lift_applied ParticipantEffect
             (applyCommittedTransactionCommand env sv \<lparr>cm_command = c, cm_index = index, cm_term = trm\<rparr> db)
       | SqlCommand q \<Rightarrow>
           if isNonEmptyString (q_sql q) then applyCommittedStatement env sv q index trm db
           else Inr (RECORDED_ONLY, [EmitCommitted], db)
       | UnknownCommand _ \<Rightarrow> Inl (CommandRefused UNRECOGNISED))
       (\<lambda>(out, effs, db'). Inr (out, WitnessHlc # effs, db')))"

end
