(* ===== verification/EntrySteps.thy ===== *)
theory EntrySteps
  imports EntryApply
begin

text \<open>
  What one committed entry may do to a partition's database. \<open>db_step\<close> is the specification: one rule
  per kind of change, each with the guards under which it may happen, and no answers, effects or error
  paths. \<open>applyCommittedEntry_step\<close> shows that every application that does not throw is such a step, so
  the invariants are proved over the rules. \<open>entry_step\<close> adds the log position.
\<close>

subsection \<open>The specification\<close>

definition entry_key :: "jsstring \<Rightarrow> jsstring" where
  "entry_key x = js ''entry:'' @ x"

definition names_partition :: "service \<Rightarrow> ptx_row \<Rightarrow> bool" where
  "names_partition sv r \<longleftrightarrow> r_participantId r = participantIdOf (Text (r_transactionId r)) (sv_partitionId sv)"

definition fresh_row :: "'d pdb \<Rightarrow> ptx_row \<Rightarrow> bool" where
  "fresh_row db r \<longleftrightarrow> \<not> (\<exists>q \<in> set (pd_rows db). has_key (r_transactionId r) (r_participantId r) q)"

definition row_operations :: "ptx_row \<Rightarrow> operation list option" where
  "row_operations r = operationsOf (opt_field (r_operationsText r))"

definition bump_generation :: "gen_row \<Rightarrow> gen_row" where
  "bump_generation g = g\<lparr>g_generation := g_generation g + 1\<rparr>"

text \<open>Why a \<open>COMMIT\<close> over a prepared row is refused.\<close>

definition commit_fails :: "'d env \<Rightarrow> service \<Rightarrow> committed \<Rightarrow> 'd pdb \<Rightarrow> ptx_row \<Rightarrow> bool" where
  "commit_fails env sv cm db row \<longleftrightarrow>
     validationTextHereOf env sv db \<noteq> Inr (r_validationText row) \<or>
     (case row_operations row of
        None \<Rightarrow> True
      | Some opers \<Rightarrow> \<exists>e. run_committed env sv cm 0 opers (pd_outcomes db) (pd_data db) = Inl e)"

inductive db_step :: "'d env \<Rightarrow> service \<Rightarrow> int \<Rightarrow> 'd pdb \<Rightarrow> 'd pdb \<Rightarrow> bool" for env sv i where
  unchanged: "db_step env sv i db db"
| acknowledged:
    "applyCdcAcknowledgementCommand (en_ns env) (en_hash env) (sv_partitionId sv) k i trm (pd_ledger db) =
       Inr (out, effs, l') \<Longrightarrow>
     db_step env sv i db (db\<lparr>pd_ledger := l'\<rparr>)"
| statement_failed:
    "\<not> isPartitionReserved db \<Longrightarrow> jm_get (pd_outcomes db) (entry_key x) = None \<Longrightarrow>
     w_outcome w = STATEMENT_FAILED \<Longrightarrow>
     db_step env sv i db (db\<lparr>pd_outcomes := jm_set (entry_key x) w (pd_outcomes db)\<rparr>)"
| statement_applied:
    "\<not> isPartitionReserved db \<Longrightarrow> jm_get (pd_outcomes db) (entry_key x) = None \<Longrightarrow>
     w_outcome w = APPLIED \<Longrightarrow> pd_generation db = Some g \<Longrightarrow>
     admitCdcOwedWork (pd_ledger db)
       (statement_slots (sv_cdc sv) (e_type entry = MIGRATION_ALTER_TABLE) snapshot) = CDC_ADMITTED \<Longrightarrow>
     recordCommittedStatementCdc (en_build env) (sv_cdc sv) data' entry snapshot i trm (entry_key x)
       (pd_ledger db) = Inr (n, cdc, l') \<Longrightarrow>
     db_step env sv i db (db\<lparr>pd_outcomes := jm_set (entry_key x) w (pd_outcomes db), pd_data := data',
       pd_ledger := l', pd_generation := Some (bump_generation g)\<rparr>)"
| coordinator_settled:
    "isCoordinatorTable (sv_tableName sv) \<Longrightarrow> \<not> isPartitionReserved db \<Longrightarrow>
     jm_get (pd_outcomes db) (entry_key x) = None \<Longrightarrow> w_outcome w = APPLIED \<Longrightarrow>
     gen' = pd_generation db \<or> (\<exists>g. pd_generation db = Some g \<and> gen' = Some (bump_generation g)) \<Longrightarrow>
     db_step env sv i db (db\<lparr>pd_outcomes := jm_set (entry_key x) w (pd_outcomes db), pd_data := data',
       pd_generation := gen'\<rparr>)"
| row_closed:
    "r_state r = REFUSED \<or> r_state r = ROLLED_BACK \<Longrightarrow> names_partition sv r \<Longrightarrow> fresh_row db r \<Longrightarrow>
     db_step env sv i db (db\<lparr>pd_rows := pd_rows db @ [r]\<rparr>)"
| row_prepared:
    "r_state r = PREPARED \<Longrightarrow> names_partition sv r \<Longrightarrow> fresh_row db r \<Longrightarrow> \<not> isPartitionReserved db \<Longrightarrow>
     validationTextHereOf env sv db = Inr (r_validationText r) \<Longrightarrow> r_validationText r \<noteq> None \<Longrightarrow>
     row_operations r = Some opers \<Longrightarrow>
     run_all env (pd_data db) opers = Inr data' \<Longrightarrow>
     admitCdcOwedWork (pd_ledger db) (if partitionOwesCdc (sv_cdc sv) then length opers else 0) = CDC_ADMITTED \<Longrightarrow>
     db_step env sv i db (db\<lparr>pd_rows := pd_rows db @ [r]\<rparr>)"
| rolled_back:
    "updateParticipantTransactionDecided db t p d = Inr db' \<Longrightarrow> dc_state d = ROLLED_BACK \<Longrightarrow>
     db_step env sv i db db'"
| commit_refused:
    "row \<in> set (pd_rows db) \<Longrightarrow> has_key t p row \<Longrightarrow> r_state row = PREPARED \<Longrightarrow>
     cm_index cm = i \<Longrightarrow> c_participantId (cm_command cm) = Text p \<Longrightarrow> commit_fails env sv cm db row \<Longrightarrow>
     updateParticipantTransactionDecided db t p d = Inr db' \<Longrightarrow> dc_state d = REFUSED \<Longrightarrow>
     db_step env sv i db db'"
| row_committed:
    "row \<in> set (pd_rows db) \<Longrightarrow> has_key t p row \<Longrightarrow> r_state row = PREPARED \<Longrightarrow>
     cm_index cm = i \<Longrightarrow> c_participantId (cm_command cm) = Text p \<Longrightarrow> row_operations row = Some opers \<Longrightarrow>
     run_committed env sv cm 0 opers (pd_outcomes db) (pd_data db) = Inr (results, events, table', data') \<Longrightarrow>
     updateParticipantTransactionDecided db t p d = Inr db' \<Longrightarrow> dc_state d = COMMITTED \<Longrightarrow>
     pd_generation db = Some g \<Longrightarrow>
     recordCommittedOperationCdc (sv_cdc sv) events (pd_ledger db) = Inr (n, cdc, l') \<Longrightarrow>
     db_step env sv i db (db'\<lparr>pd_outcomes := table', pd_data := data', pd_ledger := l',
       pd_generation := Some (if opers = [] then g else bump_generation g)\<rparr>)"
| origin_recorded:
    "pd_generation db = Some g \<Longrightarrow> g_origin g = None \<Longrightarrow>
     data' = pd_data db \<or> isCoordinatorTable (sv_tableName sv) \<Longrightarrow>
     db_step env sv i db (db\<lparr>pd_data := data',
       pd_generation := Some \<lparr>g_generation = 0, g_origin = Some (i, trm)\<rparr>\<rparr>)"
| schema_installed:
    "isCoordinatorTable (sv_tableName sv) \<Longrightarrow> db_step env sv i db (db\<lparr>pd_data := data'\<rparr>)"

subsection \<open>Every handler takes such a step\<close>

lemma insert_row_Inr:
  "insertParticipantTransactionRow db r = Inr db' \<longleftrightarrow> fresh_row db r \<and> db' = db\<lparr>pd_rows := pd_rows db @ [r]\<rparr>"
  by (auto simp: insertParticipantTransactionRow_def fresh_row_def)

lemma identity_fields:
  assumes "identityRefusalOf (carrier_of c) pid = None"
  obtains t where "c_transactionId c = Text t" "c_participantId c = Text (participantIdOf (Text t) pid)"
  using assms by (auto simp: identityRefusalOf_None carrier_of_def isNonEmptyString_iff)

lemma preparedRowOf_fields [simp]:
  "r_state (preparedRowOf cm st cause detail) = st"
  "r_transactionId (preparedRowOf cm st cause detail) = to_text (c_transactionId (cm_command cm))"
  "r_participantId (preparedRowOf cm st cause detail) = to_text (c_participantId (cm_command cm))"
  "r_operationsText (preparedRowOf cm st cause detail) = textOrNull (c_operationsText (cm_command cm))"
  "r_validationText (preparedRowOf cm st cause detail) = textOrNull (c_validationText (cm_command cm))"
  by (simp_all add: preparedRowOf_def Let_def)

lemma refusePrepare_step:
  assumes "refusePrepare cm db refusal = Inr (out, effs, db')"
    and "identityRefusalOf (carrier_of (cm_command cm)) (sv_partitionId sv) = None"
  shows "db_step env sv i db db'"
proof -
  let ?r = "preparedRowOf cm REFUSED (Some (fst refusal)) (snd refusal)"
  have "fresh_row db ?r" "db' = db\<lparr>pd_rows := pd_rows db @ [?r]\<rparr>"
    using assms(1) by (auto simp: refusePrepare_def err_simps insert_row_Inr)
  moreover have "names_partition sv ?r"
    by (rule identity_fields [OF assms(2)]) (simp add: names_partition_def)
  ultimately show ?thesis by (auto intro: row_closed)
qed

lemma textOrNull_opt_field [simp]: "textOrNull (opt_field x) = x"
  by (cases x) (simp_all add: textOrNull_def)

lemma operationsOf_stored: "operationsOf f = Some opers \<Longrightarrow> operationsOf (opt_field (textOrNull f)) = Some opers"
  by (cases f) (simp_all add: operationsOf_def parsedJsonOf_def textOrNull_def)

lemma dry_run_passed:
  assumes "dryRunCarriedOperations env data f = Inr None"
  obtains opers data' where "operationsOf f = Some opers" "run_all env data opers = Inr data'"
  using assms by (auto simp: dryRunCarriedOperations_def err_simps split: option.splits sum.splits)

text \<open>The part of the preparation past the reservation.\<close>

definition prepareUnreserved :: "'d env \<Rightarrow> service \<Rightarrow> committed \<Rightarrow> 'd pdb \<Rightarrow> 'd applied" where
  "prepareUnreserved env sv cm db =
     (let c = cm_command cm in
      bindE (validationTextHereOf env sv db) (\<lambda>here.
      if c_validationText c \<noteq> opt_field here then refusePrepare cm db (CONFLICT, None)
      else
        bindE (dryRunCarriedOperations env (pd_data db) (c_operationsText c)) (\<lambda>dryRun.
        case dryRun of
          Some refusal \<Rightarrow> refusePrepare cm db refusal
        | None \<Rightarrow>
            (case admitCdcOwedWork (pd_ledger db) (prepare_slots (sv_cdc sv) db c) of
               CDC_ADMITTED \<Rightarrow>
                 bindE (insertParticipantTransactionRow db (preparedRowOf cm PREPARED None None))
                   (\<lambda>db'. Inr (APPLIED, [Answer (c_entryId c) (Accepted (rowAnswer db' c) False False None)], db'))
             | refused \<Rightarrow> Inr (RECORDED_ONLY, [Answer (c_entryId c) (CapacityRefusal refused)], db)))))"

lemma prepare_unfold:
  "applyParticipantPrepare env sv cm db =
     (case identityRefusalOf (carrier_of (cm_command cm)) (sv_partitionId sv) of
        Some refusal \<Rightarrow> Inr (RECORDED_ONLY, consumedRefusal cm refusal None None, db)
      | None \<Rightarrow>
          (case participant_row db (cm_command cm) of
             Some row \<Rightarrow> Inr (prepareOverRow env cm db row)
           | None \<Rightarrow>
               if Text (preparedDigestOf (en_hash env) (c_operationsText (cm_command cm))
                    (c_validationText (cm_command cm))) \<noteq> c_preparedDigest (cm_command cm)
               then refusePrepare cm db (DIGEST_INVALID, None)
               else
                 bindE (readPartitionWriteOrigin db) (\<lambda>origin.
                 if \<not> origin_matches (carriedOriginIndexOf (c_validationText (cm_command cm))) origin
                 then refuseOriginMismatch cm db
                 else if isPartitionReserved db
                 then Inr (RESERVED_REFUSED,
                        [LogRefused RESERVED,
                         Answer (c_entryId (cm_command cm))
                           (Refusal RESERVED (Some (row_outcome None)) None True)], db)
                 else prepareUnreserved env sv cm db)))"
  unfolding applyParticipantPrepare_def prepareUnreserved_def Let_def ..

lemma unreserved_step:
  assumes app: "prepareUnreserved env sv cm db = Inr (out, effs, db')"
    and ident: "identityRefusalOf (carrier_of (cm_command cm)) (sv_partitionId sv) = None"
    and none: "participant_row db (cm_command cm) = None"
    and origin: "readPartitionWriteOrigin db = Inr (Some og)" and free: "\<not> isPartitionReserved db"
  shows "db_step env sv i db db'"
proof -
  let ?c = "cm_command cm" and ?r = "preparedRowOf cm PREPARED None None"
  note refuse = refusePrepare_step [OF _ ident]
  obtain here where here: "validationTextHereOf env sv db = Inr here"
    using app by (auto simp: prepareUnreserved_def Let_def err_simps)
  then have "here \<noteq> None"
    by (cases og) (auto simp: validationTextHereOf_def origin err_simps)
  note app1 = app [unfolded prepareUnreserved_def Let_def here bindE_Inr]
  show ?thesis
  proof (cases "c_validationText ?c = opt_field here")
    case False
    then show ?thesis using app1 refuse by simp
  next
    case same: True
    with app1 obtain dryRun where dry: "dryRunCarriedOperations env (pd_data db) (c_operationsText ?c) = Inr dryRun"
      by (auto simp: err_simps)
    show ?thesis
    proof (cases dryRun)
      case (Some refusal)
      then show ?thesis using app1 same dry refuse by simp
    next
      case None
      obtain opers data' where o: "operationsOf (c_operationsText ?c) = Some opers"
          "run_all env (pd_data db) opers = Inr data'"
        by (rule dry_run_passed [OF dry [unfolded None]])
      have slots: "prepare_slots (sv_cdc sv) db ?c = (if partitionOwesCdc (sv_cdc sv) then length opers else 0)"
        using none o(1) by (simp add: prepare_slots_def operations_length_def participant_row_def)
      show ?thesis
      proof (cases "admitCdcOwedWork (pd_ledger db) (prepare_slots (sv_cdc sv) db ?c) = CDC_ADMITTED")
        case False
        then have "db' = db" using app1 same dry None by (auto split: cdc_admission.splits)
        then show ?thesis by (simp add: unchanged)
      next
        case True
        then have db': "fresh_row db ?r" "db' = db\<lparr>pd_rows := pd_rows db @ [?r]\<rparr>"
          using app1 same dry None by (auto simp: err_simps insert_row_Inr)
        have "names_partition sv ?r"
          by (rule identity_fields [OF ident]) (simp add: names_partition_def)
        then show ?thesis
          using True here \<open>here \<noteq> None\<close> same o free slots db'(1) operationsOf_stored [OF o(1)] unfolding db'(2)
          by (intro row_prepared [of ?r]) (simp_all add: row_operations_def)
      qed
    qed
  qed
qed

lemma prepare_step:
  assumes "applyParticipantPrepare env sv cm db = Inr (out, effs, db')"
  shows "db_step env sv i db db'"
proof (cases "identityRefusalOf (carrier_of (cm_command cm)) (sv_partitionId sv)")
  case (Some code)
  then show ?thesis using assms by (auto simp: applyParticipantPrepare_def intro: unchanged)
next
  case ident: None
  let ?c = "cm_command cm"
  show ?thesis
  proof (cases "participant_row db ?c")
    case (Some row)
    then have "db' = db" using assms ident
      by (auto simp: applyParticipantPrepare_def prepareOverRow_def Let_def split: if_splits)
    then show ?thesis by (simp add: unchanged)
  next
    case None
    note app = assms [unfolded prepare_unfold ident None option.case]
    note refuse = refusePrepare_step [OF _ ident]
    show ?thesis
    proof (cases "Text (preparedDigestOf (en_hash env) (c_operationsText ?c) (c_validationText ?c)) = c_preparedDigest ?c")
      case False
      then show ?thesis using app refuse by simp
    next
      case True
      with app obtain origin where origin: "readPartitionWriteOrigin db = Inr origin" by (auto simp: err_simps)
      note app1 = app [unfolded origin bindE_Inr]
      show ?thesis
      proof (cases "origin_matches (carriedOriginIndexOf (c_validationText ?c)) origin")
        case False
        then show ?thesis using True app1 refuse by (auto simp: refuseOriginMismatch_def err_simps)
      next
        case matches: True
        show ?thesis
        proof (cases "isPartitionReserved db")
          case reserved: True
          then have "db' = db" using True app1 matches by simp
          then show ?thesis by (simp add: unchanged)
        next
          case free: False
          obtain og where "readPartitionWriteOrigin db = Inr (Some og)"
            using matches origin by (auto simp: origin_matches_def split: option.splits)
          with free show ?thesis using True app1 matches unreserved_step [OF _ ident None] by simp
        qed
      qed
    qed
  qed
qed

text \<open>Recording a decision changes the rows only.\<close>

definition decided_rows :: "jsstring \<Rightarrow> jsstring \<Rightarrow> decided \<Rightarrow> ptx_row list \<Rightarrow> ptx_row list" where
  "decided_rows t p d rows = map (\<lambda>r. if has_key t p r \<and> r_state r = PREPARED then decide_row d r else r) rows"

lemma update_Inr:
  "updateParticipantTransactionDecided db t p d = Inr db' \<longleftrightarrow>
     length (filter (\<lambda>r. has_key t p r \<and> r_state r = PREPARED) (pd_rows db)) = 1 \<and>
     db' = db\<lparr>pd_rows := decided_rows t p d (pd_rows db)\<rparr>"
  by (auto simp: updateParticipantTransactionDecided_def Let_def decided_rows_def)

lemma update_frame:
  "updateParticipantTransactionDecided (db\<lparr>pd_outcomes := table, pd_data := data\<rparr>) t p d = Inr db' \<Longrightarrow>
   \<exists>db1. updateParticipantTransactionDecided db t p d = Inr db1 \<and> db' = db1\<lparr>pd_outcomes := table, pd_data := data\<rparr>"
  by (simp add: update_Inr)

lemma participant_row_Some:
  assumes "participant_row db c = Some row"
  obtains t p where "c_transactionId c = Text t" "c_participantId c = Text p" "row \<in> set (pd_rows db)"
    "has_key t p row"
  using assms
  by (auto simp: participant_row_def readParticipantTransactionRow_def find_Some_iff split: field.splits)

lemma advance_Inr:
  "advancePartitionWriteGeneration db = Inr db' \<longleftrightarrow>
     (\<exists>g. pd_generation db = Some g \<and> db' = db\<lparr>pd_generation := Some (bump_generation g)\<rparr>)"
  by (auto simp: advancePartitionWriteGeneration_def bump_generation_def split: option.splits)

lemma validationTextHereOf_generation:
  "validationTextHereOf env sv db = Inr x \<Longrightarrow> \<exists>g. pd_generation db = Some g"
  by (auto simp: validationTextHereOf_def readPartitionWriteOrigin_def generationRowOf_def err_simps
      split: option.splits)

lemma ledger_result_Inr: "ledger_result r = Inr x \<longleftrightarrow> r = Inr x"
  by (auto simp: ledger_result_def split: sum.splits)

lemma decidedOf_state [simp]: "dc_state (decidedOf cm st refusal) = st"
  by (simp add: decidedOf_def Let_def)

lemma refuseCommit_step:
  assumes "refuseCommit cm db refusal = Inr (out, effs, db')" "participant_row db (cm_command cm) = Some row"
    and "r_state row = PREPARED" "commit_fails env sv cm db row"
  shows "db_step env sv (cm_index cm) db db'"
proof (rule participant_row_Some [OF assms(2)])
  fix t p assume row: "c_transactionId (cm_command cm) = Text t" "c_participantId (cm_command cm) = Text p"
    "row \<in> set (pd_rows db)" "has_key t p row"
  have "updateParticipantTransactionDecided db t p (decidedOf cm REFUSED (Some refusal)) = Inr db'"
    using assms(1) row(1,2) by (auto simp: refuseCommit_def decide_def err_simps Let_def)
  then show ?thesis
    by (rule commit_refused [OF row(3,4) assms(3) refl row(2) assms(4)]) simp
qed

lemma commit_step:
  assumes app: "commitPrepared env sv cm db row = Inr (out, effs, db')"
    and row: "participant_row db (cm_command cm) = Some row" "r_state row = PREPARED"
  shows "db_step env sv (cm_index cm) db db'"
proof -
  obtain here where here: "validationTextHereOf env sv db = Inr here"
    using app by (auto simp: commitPrepared_def err_simps)
  note app1 = app [unfolded commitPrepared_def here bindE_Inr]
  show ?thesis
  proof (cases "r_validationText row = here")
    case False
    then have "commit_fails env sv cm db row" by (simp add: commit_fails_def here)
    then show ?thesis using app1 False refuseCommit_step [OF _ row] by simp
  next
    case base: True
    show ?thesis
    proof (cases "row_operations row")
      case None
      then have "commit_fails env sv cm db row" by (simp add: commit_fails_def)
      then show ?thesis using app1 base None refuseCommit_step [OF _ row] by (simp add: row_operations_def)
    next
      case (Some opers)
      note app2 = app1 [folded row_operations_def, unfolded Some option.case]
      show ?thesis
      proof (cases "run_committed env sv cm 0 opers (pd_outcomes db) (pd_data db)")
        case (Inl e)
        then have "commit_fails env sv cm db row" by (simp add: commit_fails_def Some)
        then show ?thesis using app2 base Inl refuseCommit_step [OF _ row] by (auto simp: err_simps)
      next
        case (Inr res)
        obtain results events table' data' where res: "res = (results, events, table', data')" by (cases res)
        note run = Inr [unfolded res]
        obtain t p where tp: "c_transactionId (cm_command cm) = Text t" "c_participantId (cm_command cm) = Text p"
            "row \<in> set (pd_rows db)" "has_key t p row"
          by (rule participant_row_Some [OF row(1)])
        obtain db1 generation db2 n cdc l' where
            db1: "decide cm (db\<lparr>pd_outcomes := table', pd_data := data'\<rparr>) COMMITTED None = Inr db1"
          and db2: "(if 0 < length opers
                then bindE (advancePartitionWriteGeneration db1) (\<lambda>db2.
                       bindE (readPartitionWriteGeneration db2) (\<lambda>g. Inr (Some g, db2)))
                else Inr (None, db1)) = Inr (generation, db2)"
          and cdc: "recordCommittedOperationCdc (sv_cdc sv) events (pd_ledger db2) = Inr (n, cdc, l')"
          and db': "db' = db2\<lparr>pd_ledger := l'\<rparr>"
          using app2 base run by (auto simp: err_simps ledger_result_Inr simp del: length_greater_0_conv)
        obtain g where g: "pd_generation db = Some g" using validationTextHereOf_generation [OF here] by blast
        obtain db0 where db0: "updateParticipantTransactionDecided db t p (decidedOf cm COMMITTED None) = Inr db0"
            "db1 = db0\<lparr>pd_outcomes := table', pd_data := data'\<rparr>"
          using db1 tp(1,2) by (auto simp: decide_def dest: update_frame)
        have f0: "pd_generation db0 = Some g" "pd_ledger db0 = pd_ledger db"
          using db0(1) g by (auto simp: update_Inr)
        have db2': "db2 = db1\<lparr>pd_generation := Some (if opers = [] then g else bump_generation g)\<rparr>"
          using db2 f0(1) db0(2)
          by (cases "opers = []") (auto simp: err_simps advance_Inr)
        have "db' = db0\<lparr>pd_outcomes := table', pd_data := data', pd_ledger := l',
            pd_generation := Some (if opers = [] then g else bump_generation g)\<rparr>"
          unfolding db' db2' db0(2) by simp
        moreover have "recordCommittedOperationCdc (sv_cdc sv) events (pd_ledger db) = Inr (n, cdc, l')"
          using cdc f0(2) unfolding db2' db0(2) by simp
        ultimately show ?thesis
          using row_committed [OF tp(3,4) row(2) refl tp(2) Some run db0(1) _ g] by simp
      qed
    qed
  qed
qed

lemma tombstone_fields [simp]:
  "r_state (tombstone cm) = ROLLED_BACK" "r_transactionId (tombstone cm) = to_text (c_transactionId (cm_command cm))"
  "r_participantId (tombstone cm) = to_text (c_participantId (cm_command cm))"
  by (simp_all add: tombstone_def Let_def)

lemma decision_step:
  assumes app: "applyParticipantDecision env sv cm db = Inr (out, effs, db')"
  shows "db_step env sv (cm_index cm) db db'"
proof -
  let ?c = "cm_command cm"
  show ?thesis
  proof (cases "identityRefusalOf (carrier_of ?c) (sv_partitionId sv) = None \<and>
      decisionBindingRefusalOf (en_ns env) (en_hash env) (binding_of ?c) = None")
    case False
    then have "db' = db" using app by (auto simp: applyParticipantDecision_def Let_def split: option.splits)
    then show ?thesis by (simp add: unchanged)
  next
    case ok: True
    show ?thesis
    proof (cases "participant_row db ?c")
      case None
      then have "decideAbsent cm db = Inr (out, effs, db')"
        using app ok by (simp add: applyParticipantDecision_def Let_def)
      then have "db' = db \<or> fresh_row db (tombstone cm) \<and> db' = db\<lparr>pd_rows := pd_rows db @ [tombstone cm]\<rparr>"
        by (auto simp: decideAbsent_def Let_def err_simps insert_row_Inr split: if_splits)
      moreover have "names_partition sv (tombstone cm)"
        by (rule identity_fields [OF conjunct1 [OF ok]]) (simp add: names_partition_def)
      ultimately show ?thesis by (auto intro: unchanged row_closed)
    next
      case (Some row)
      show ?thesis
      proof (cases "Text (r_commitMode row) = c_commitMode ?c \<and> r_transactionEpoch row = command_epoch ?c \<and>
          r_state row = PREPARED")
        case False
        then have "db' = db" using app ok Some
          by (cases "r_state row") (auto simp: applyParticipantDecision_def Let_def replayDecision_def
              decision_conflict_def answerRefusedRollback_def split: if_splits)
        then show ?thesis by (simp add: unchanged)
      next
        case True
        then have over: "decideOverPrepared env sv cm db row = Inr (out, effs, db')"
          using app ok Some by (simp add: applyParticipantDecision_def Let_def)
        obtain t p where tp: "c_transactionId ?c = Text t" "c_participantId ?c = Text p"
          by (rule participant_row_Some [OF Some])
        consider "db' = db" | "commitPrepared env sv cm db row = Inr (out, effs, db')"
          | "updateParticipantTransactionDecided db t p (decidedOf cm ROLLED_BACK None) = Inr db'"
          using over tp by (auto simp: decideOverPrepared_def Let_def decide_def err_simps split: if_splits)
        then show ?thesis
        proof cases
          case 1
          then show ?thesis by (simp add: unchanged)
        next
          case 2
          then show ?thesis using commit_step [OF _ Some] True by simp
        next
          case 3
          then show ?thesis by (rule rolled_back) simp
        qed
      qed
    qed
  qed
qed

lemma origin_step:
  assumes "applyGenerationOrigin env sv cm db = Inr (out, effs, db')"
  shows "db_step env sv (cm_index cm) db db'"
proof (cases "c_partitionId (cm_command cm) = Text (sv_partitionId sv)")
  case False
  then have "db' = db" using assms by (auto simp: applyGenerationOrigin_def Let_def)
  then show ?thesis by (simp add: unchanged)
next
  case True
  let ?A = "if isCoordinatorTable (sv_tableName sv)
      then (case installTransactionSchemaEnforcement (en_uc env) (en_schema env (pd_data db)) of
              None \<Rightarrow> Inl SchemaEnforcementUnavailable
            | Some s \<Rightarrow> Inr (db\<lparr>pd_data := en_putSchema env (pd_data db) s\<rparr>))
      else Inr db"
  obtain db1 where db1: "?A = Inr db1"
    using assms True by (cases ?A) (simp_all add: applyGenerationOrigin_def)
  note rest = assms [unfolded applyGenerationOrigin_def Let_def db1 bindE_Inr]
  obtain data' where d: "db1 = db\<lparr>pd_data := data'\<rparr>" "data' = pd_data db \<or> isCoordinatorTable (sv_tableName sv)"
    using db1 that [of "pd_data db1"] by (auto split: if_splits option.splits)
  consider "db' = db1" | g where "pd_generation db = Some g" "g_origin g = None"
      "db' = db\<lparr>pd_data := data', pd_generation := Some \<lparr>g_generation = 0, g_origin = Some (cm_index cm, cm_term cm)\<rparr>\<rparr>"
    using rest True unfolding d(1)
    by (auto simp: readPartitionWriteOrigin_def generationRowOf_def recordPartitionWriteOrigin_def err_simps
        split: option.splits if_splits)
  then show ?thesis
  proof cases
    case 1
    then show ?thesis using d unchanged [of env sv "cm_index cm" db] schema_installed by auto
  next
    case (2 g)
    then show ?thesis using origin_recorded [OF 2(1,2) d(2)] by simp
  qed
qed

lemma outcome_of_outcome [simp]: "w_outcome (outcome_of out i trm e r own) = out"
  by (simp add: outcome_of_def)

lemma record_Inr:
  "recordCommittedStatementOutcome table key w = Inr table' \<longleftrightarrow>
     jm_get table key = None \<and> table' = jm_set key w table"
  by (auto simp: recordCommittedStatementOutcome_def)

lemma statement_step:
  assumes app: "applyCommittedStatement env sv q i trm db = Inr (out, effs, db')"
  shows "db_step env sv i db db'"
proof -
  let ?key = "entry_key (to_text (q_entryId q))"
  obtain origin where origin: "readPartitionWriteOrigin db = Inr origin"
    using app by (auto simp: applyCommittedStatement_def err_simps)
  note app1 = app [unfolded applyCommittedStatement_def origin bindE_Inr Let_def, folded entry_key_def]
  obtain ident where
    ident: "buildCommittedWriteIdentity (sv_replica sv) (q_entryId q) (q_timestamp q) (q_proposedBy q) i trm = Inr ident"
    and writable: "\<not> isTransactionSchemaWriteRefused (en_uc env) (en_schema env (pd_data db)) (sv_tableName sv) (origin \<noteq> None)"
    using app1 by (auto simp: err_simps split: if_splits)
  note app2 = app1 [unfolded ident bindE_Inr, simplified writable if_False]
  show ?thesis
  proof (cases "readCommittedStatementOutcome (pd_outcomes db) ?key = None \<and> \<not> isPartitionReserved db \<and>
      admitCdcOwedWork (pd_ledger db)
        (statement_slots (sv_cdc sv) (q_type q = MIGRATION_ALTER_TABLE) (q_snapshot q)) = CDC_ADMITTED")
    case False
    then have "db' = db"
      using app2 by (auto simp: settleRecordedCommittedStatement_def settleReservedCommittedStatement_def
          settleCdcOwedRefusal_def Let_def split: option.splits if_splits cdc_admission.splits)
    then show ?thesis by (simp add: unchanged)
  next
    case go: True
    then have fresh: "jm_get (pd_outcomes db) ?key = None" by (simp add: readCommittedStatementOutcome_def)
    show ?thesis
    proof (cases "en_run env (pd_data db) (sql_statement q)")
      case (Inl e)
      then have "settleFailedCommittedStatement q e ?key i trm ident db = Inr (out, effs, db')"
        using app2 go by simp
      then have "db' = db\<lparr>pd_outcomes := jm_set ?key (outcome_of STATEMENT_FAILED i trm (Some e) None None) (pd_outcomes db)\<rparr>"
        by (auto simp: settleFailedCommittedStatement_def err_simps record_Inr split: if_splits)
      then show ?thesis using go fresh by (auto intro: statement_failed)
    next
      case (Inr res)
      obtain info data' where res: "res = (info, data')" by (cases res)
      obtain n cdc l' g where
          cdc: "recordCommittedStatementCdc (en_build env) (sv_cdc sv) data' (sql_entry q (changes info)) (q_snapshot q)
            i trm ?key (pd_ledger db) = Inr (n, cdc, l')"
        and g: "pd_generation db = Some g"
        and db': "db' = db\<lparr>pd_outcomes := jm_set ?key (outcome_of APPLIED i trm None (Some info) None) (pd_outcomes db),
            pd_data := data', pd_ledger := l', pd_generation := Some (bump_generation g)\<rparr>"
        using app2 go Inr fresh unfolding res
        by (auto simp: err_simps record_Inr ledger_result_Inr advance_Inr simp del: js_simps)
      have "e_type (sql_entry q (changes info)) = q_type q" by (simp add: sql_entry_def)
      then show ?thesis unfolding db' using go fresh cdc g by (intro statement_applied) simp_all
    qed
  qed
qed

lemma sql_transactions_coordinator: "isCoordinatorTable (Some SQL_TRANSACTIONS)"
  by code_simp

lemma settlement_step:
  assumes app: "applyCoordinatorSettlement env sv s i trm db = Inr (out, effs, db')"
  shows "db_step env sv i db db'"
proof -
  let ?key = "entry_key (to_text (sc_entryId s))"
  obtain answer rows' where ans: "applyTransactionSettlement (en_ns env) (en_hash env)
      (en_transactions env (pd_data db)) (case sc_settlement s of Some v \<Rightarrow> v | None \<Rightarrow> JNull) = (answer, rows')"
    by fastforce
  note app1 = app [unfolded applyCoordinatorSettlement_def Let_def ans, folded entry_key_def]
  have coord: "isCoordinatorTable (sv_tableName sv)"
    using app1 sql_transactions_coordinator by (auto split: if_splits)
  show ?thesis
  proof (cases "readCommittedStatementOutcome (pd_outcomes db) ?key = None \<and> \<not> isPartitionReserved db")
    case False
    then have "db' = db" using app1
      by (auto simp: settleReservedCommittedStatement_def split: option.splits if_splits)
    then show ?thesis by (simp add: unchanged)
  next
    case go: True
    then have fresh: "jm_get (pd_outcomes db) ?key = None" by (simp add: readCommittedStatementOutcome_def)
    obtain result where result:
        "canonicalTransactionSettlementResult (en_ns env) (en_hash env) (result_json answer) = Some result"
      using app1 go by (auto split: option.splits if_splits)
    let ?w = "outcome_of APPLIED i trm None None (Some (stringify (en_ns env) (result_json result)))"
    let ?data = "if rows' = en_transactions env (pd_data db) then pd_data db
        else en_putTransactions env (pd_data db) rows'"
    have "db' = db\<lparr>pd_outcomes := jm_set ?key ?w (pd_outcomes db), pd_data := ?data\<rparr> \<or>
        (\<exists>g. pd_generation db = Some g \<and> db' = db\<lparr>pd_outcomes := jm_set ?key ?w (pd_outcomes db), pd_data := ?data,
           pd_generation := Some (bump_generation g)\<rparr>)"
      using app1 go result fresh
      by (auto simp: err_simps record_Inr advance_Inr split: if_splits)
    then show ?thesis
    proof
      assume "db' = db\<lparr>pd_outcomes := jm_set ?key ?w (pd_outcomes db), pd_data := ?data\<rparr>"
      then show ?thesis
        using coordinator_settled [OF coord _ fresh, of ?w "pd_generation db" env i ?data] go by simp
    next
      assume "\<exists>g. pd_generation db = Some g \<and> db' = db\<lparr>pd_outcomes := jm_set ?key ?w (pd_outcomes db), pd_data := ?data,
           pd_generation := Some (bump_generation g)\<rparr>"
      then show ?thesis
        using coordinator_settled [OF coord _ fresh, of ?w _ env i ?data] go by auto
    qed
  qed
qed

text \<open>Refinement: an application that returns does what the specification allows, whatever the command.\<close>

lemma applyCommittedEntry_step:
  assumes app: "applyCommittedEntry env sv cmd i trm db = Inr (out, effs, db')"
  shows "db_step env sv i db db'"
proof (cases cmd)
  case (SqlCommand q)
  show ?thesis
  proof (cases "isNonEmptyString (q_sql q)")
    case True
    then obtain effs' where "applyCommittedStatement env sv q i trm db = Inr (out, effs', db')"
      using app SqlCommand by (auto simp: applyCommittedEntry_def err_simps)
    then show ?thesis by (rule statement_step)
  next
    case False
    then have "db' = db" using app SqlCommand by (auto simp: applyCommittedEntry_def err_simps)
    then show ?thesis by (simp add: unchanged)
  qed
next
  case (ParticipantCommand c)
  let ?cm = "\<lparr>cm_command = c, cm_index = i, cm_term = trm\<rparr>"
  obtain effs' where "applyParticipantCommand env sv ?cm db = Inr (out, effs', db')"
    using app ParticipantCommand
    by (auto simp: applyCommittedEntry_def lift_applied_def applyCommittedTransactionCommand_def err_simps)
  then obtain effs'' where "applyParticipantPrepare env sv ?cm db = Inr (out, effs'', db') \<or>
      applyParticipantDecision env sv ?cm db = Inr (out, effs'', db') \<or>
      applyGenerationOrigin env sv ?cm db = Inr (out, effs'', db')"
    by (cases "c_type c") (auto simp: applyParticipantCommand_def err_simps)
  then show ?thesis
    using prepare_step [of env sv ?cm db out effs'' db' i] decision_step [of env sv ?cm] origin_step [of env sv ?cm]
    by auto
next
  case (CdcDelivered k)
  then obtain effs' l' where
      "applyCdcAcknowledgementCommand (en_ns env) (en_hash env) (sv_partitionId sv) k i trm (pd_ledger db) = Inr (out, effs', l')"
      "db' = db\<lparr>pd_ledger := l'\<rparr>"
    using app by (auto simp: applyCommittedEntry_def err_simps ledger_result_Inr)
  then show ?thesis by (auto intro: acknowledged)
next
  case (CoordinatorSettlement s)
  then obtain effs' where "applyCoordinatorSettlement env sv s i trm db = Inr (out, effs', db')"
    using app by (auto simp: applyCommittedEntry_def err_simps)
  then show ?thesis by (rule settlement_step)
next
  case (UnknownCommand f)
  then show ?thesis using app by (simp add: applyCommittedEntry_def)
qed

subsection \<open>Runs of the log\<close>

text \<open>
  The state is the applied index and the database; an entry is applied at a later index, indices are
  below the safe integer bound, and an application that throws takes no step.
\<close>

inductive entry_step :: "'d env \<Rightarrow> service \<Rightarrow> int \<times> 'd pdb \<Rightarrow> int \<times> 'd pdb \<Rightarrow> bool" for env sv where
  applied: "m < i \<Longrightarrow> i < max_safe \<Longrightarrow> applyCommittedEntry env sv cmd i trm db = Inr (out, effs, db') \<Longrightarrow>
    entry_step env sv (m, db) (i, db')"

inductive_cases entry_stepE: "entry_step env sv s s'"

lemma entry_step_db:
  "entry_step env sv (m, db) (i, db') \<Longrightarrow> m < i \<and> i < max_safe \<and> db_step env sv i db db'"
  by (auto elim!: entry_stepE intro: applyCommittedEntry_step)

end
