(* ===== verification/EntryInvariant.thy ===== *)
theory EntryInvariant
  imports EntrySteps
begin

text \<open>
  What stays true of a partition's database along the log. The invariant \<open>db_ok\<close> is kept by every rule of
  \<open>db_step\<close>, one part at a time; the properties are read off it: participant rows are final once
  terminal, a prepared row reserves the partition and can always be committed, the operations of a
  transaction take effect together, an outcome is recorded once, the debt of CDC events is bounded and
  the write generation names the data.
\<close>

subsection \<open>Outcome keys\<close>

definition op_key :: "jsstring \<Rightarrow> nat \<Rightarrow> jsstring" where
  "op_key p k = operationOutcomeKeyOf (Text p) k"

lemma colon_not_digit: "char_digit (hd id_separator) = None"
  by code_simp

lemma show_nat_no_colon: "hd id_separator \<notin> set (show_nat n)"
  using show_nat_digits colon_not_digit by metis

lemma split_at_colon:
  assumes "p @ c # s = q @ c # t" "c \<notin> set s" "c \<notin> set t"
  shows "p = q \<and> s = t"
proof -
  have "rev s @ c # rev p = rev t @ c # rev q"
    using arg_cong [OF assms(1), of rev] by simp
  moreover have "takeWhile (\<lambda>x. x \<noteq> c) (rev u @ c # v) = rev u" if "c \<notin> set u" for u v
    by (subst takeWhile_append2) (use that in auto)
  ultimately have "rev s = rev t" using assms(2,3) by metis
  then show ?thesis using assms(1) by simp
qed

lemma op_key_inject [simp]: "op_key p j = op_key q k \<longleftrightarrow> p = q \<and> j = k"
proof
  have sep: "id_separator = [hd id_separator]" by code_simp
  assume "op_key p j = op_key q k"
  then have "p @ id_separator @ show_nat j = q @ id_separator @ show_nat k"
    by (simp add: op_key_def operationOutcomeKeyOf_def)
  then have "p @ hd id_separator # show_nat j = q @ hd id_separator # show_nat k"
    using sep by (metis append_Cons append_Nil)
  from split_at_colon [OF this show_nat_no_colon show_nat_no_colon] show "p = q \<and> j = k" by simp
qed simp

lemma op_key_not_entry_key [simp]: "op_key p k \<noteq> entry_key x" "entry_key x \<noteq> op_key p k"
proof -
  have "hd (op_key p k) = 116" "hd (entry_key x) = 101"
    by (simp_all add: op_key_def operationOutcomeKeyOf_def entry_key_def js_def)
  then have "hd (op_key p k) \<noteq> hd (entry_key x)" by simp
  then show "op_key p k \<noteq> entry_key x" "entry_key x \<noteq> op_key p k" by auto
qed

lemma participant_id_inject:
  "names_partition sv r \<Longrightarrow> names_partition sv q \<Longrightarrow>
   r_participantId r = r_participantId q \<longleftrightarrow> r_transactionId r = r_transactionId q"
  by (simp add: names_partition_def participantIdOf_def)

subsection \<open>The operations of a commit\<close>

definition op_events :: "committed \<Rightarrow> jsstring \<Rightarrow> nat \<Rightarrow> nat \<Rightarrow> captured list \<Rightarrow> bool" where
  "op_events cm p k n events \<longleftrightarrow>
     length events \<le> n \<and> distinct (map o_ordinal (owed_of events)) \<and>
     (\<forall>e \<in> set (owed_of events). o_logIndex e = cm_index cm \<and>
        (\<exists>j \<in> {k ..< k + n}. o_eventKey e = op_key p j \<and> o_ordinal e = int j))"

definition op_outcomes :: "jsstring \<Rightarrow> nat \<Rightarrow> nat \<Rightarrow> outcome_table \<Rightarrow> outcome_table \<Rightarrow> bool" where
  "op_outcomes p k n table table' \<longleftrightarrow>
     (\<forall>j \<in> {k ..< k + n}. jm_get table (op_key p j) = None \<and>
        (\<exists>w. jm_get table' (op_key p j) = Some w \<and> w_outcome w = APPLIED)) \<and>
     (\<forall>key. (\<forall>j \<in> {k ..< k + n}. key \<noteq> op_key p j) \<longrightarrow> jm_get table' key = jm_get table key) \<and>
     (jm_wf table \<longrightarrow> jm_wf table')"

lemma capture_event:
  assumes "captureCommittedOperationCdc build s data c i trm oper ch k = Some e" "c_participantId c = Text p"
  shows "owed_of [e] = [] \<or>
    (\<exists>r. e = Owed r \<and> o_eventKey r = op_key p k \<and> o_ordinal r = int k \<and> o_logIndex r = i)"
  using assms
  by (auto simp: captureCommittedOperationCdc_def owed_event_def op_key_def split: if_splits option.splits)

lemma owed_of_Cons: "owed_of (e # es) = owed_of [e] @ owed_of es"
  by (cases e) simp_all

lemma op_events_Cons:
  assumes "op_events cm p (Suc k) n events"
    and "owed_of [e] = [] \<or>
      (\<exists>r. e = Owed r \<and> o_eventKey r = op_key p k \<and> o_ordinal r = int k \<and> o_logIndex r = cm_index cm)"
  shows "op_events cm p k (Suc n) (e # events)"
proof -
  have rest: "o_logIndex x = cm_index cm \<and> (\<exists>j \<in> {k ..< k + Suc n}. o_eventKey x = op_key p j \<and> o_ordinal x = int j)"
    and later: "o_ordinal x \<noteq> int k" if x: "x \<in> set (owed_of events)" for x
  proof -
    from assms(1) x obtain j where "o_logIndex x = cm_index cm" "j \<in> {Suc k ..< Suc k + n}"
        "o_eventKey x = op_key p j" "o_ordinal x = int j"
      unfolding op_events_def by blast
    then show "o_logIndex x = cm_index cm \<and> (\<exists>j \<in> {k ..< k + Suc n}. o_eventKey x = op_key p j \<and> o_ordinal x = int j)"
      "o_ordinal x \<noteq> int k" by (auto intro!: bexI [of _ j])
  qed
  have "length (e # events) \<le> Suc n" "distinct (map o_ordinal (owed_of events))"
    using assms(1) by (simp_all add: op_events_def)
  with assms(2) rest later show ?thesis
    using owed_of_Cons [of e events] unfolding op_events_def by (elim disjE exE conjE) (auto, blast)
qed

lemma op_events_Suc: "op_events cm p (Suc k) n events \<Longrightarrow> op_events cm p k (Suc n) events"
proof -
  have "{Suc k ..< Suc k + n} \<subseteq> {k ..< k + Suc n}" by auto
  then show "op_events cm p (Suc k) n events \<Longrightarrow> op_events cm p k (Suc n) events"
    unfolding op_events_def by (meson le_SucI subsetD)
qed

lemma op_outcomes_Cons:
  assumes "jm_get table (op_key p k) = None" "w_outcome w = APPLIED"
    and "op_outcomes p (Suc k) n (jm_set (op_key p k) w table) table'"
  shows "op_outcomes p k (Suc n) table table'"
proof -
  have range: "{k ..< k + Suc n} = insert k {Suc k ..< Suc k + n}" by auto
  have "jm_get table' (op_key p k) = Some w"
    using assms(3) by (auto simp: op_outcomes_def jm_get_set)
  then show ?thesis
    using assms unfolding op_outcomes_def range by (fastforce simp: jm_get_set)
qed

lemma run_committed_spec:
  assumes "run_committed env sv cm k opers table data = Inr (results, events, table', data')"
    and "c_participantId (cm_command cm) = Text p"
  shows "run_all env data opers = Inr data' \<and> length results = length opers \<and>
     op_events cm p k (length opers) events \<and> op_outcomes p k (length opers) table table'"
  using assms(1)
proof (induction opers arbitrary: k table data results events)
  case Nil
  then show ?case by (auto simp: op_events_def op_outcomes_def)
next
  case (Cons oper opers)
  let ?c = "cm_command cm"
  obtain result data1 where run: "runCarriedOperation env data oper = Inr (result, data1)"
    using Cons.prems by (auto simp: err_simps)
  let ?w = "outcome_of APPLIED (cm_index cm) (cm_term cm) None (Some result) None"
  let ?event = "captureCommittedOperationCdc (en_build env) (sv_cdc sv) data1 ?c (cm_index cm) (cm_term cm) oper
    (changes result) k"
  from Cons.prems run assms(2) obtain results1 events1 where
      fresh: "jm_get table (op_key p k) = None"
    and rest: "run_committed env sv cm (Suc k) opers (jm_set (op_key p k) ?w table) data1 =
        Inr (results1, events1, table', data')"
    and out: "results = result # results1" "events = (case ?event of None \<Rightarrow> events1 | Some e \<Rightarrow> e # events1)"
    by (auto simp: err_simps Let_def record_Inr op_key_def split: sum.splits)
  note ih = Cons.IH [OF rest]
  have "op_events cm p k (Suc (length opers)) events"
  proof (cases ?event)
    case None
    then show ?thesis using ih out(2) op_events_Suc by simp
  next
    case (Some e)
    then show ?thesis using ih out(2) op_events_Cons capture_event [OF Some assms(2)] by simp
  qed
  moreover have "op_outcomes p k (Suc (length opers)) table table'"
    using op_outcomes_Cons [OF fresh, of ?w] ih by simp
  ultimately show ?case using ih run out(1) by simp
qed

text \<open>A run that succeeded as a dry run succeeds as the commit, when no outcome is recorded yet.\<close>

lemma run_committed_total:
  assumes "run_all env data opers = Inr data'" "c_participantId (cm_command cm) = Text p"
    and "\<forall>j \<ge> k. jm_get table (op_key p j) = None"
  shows "\<exists>results events table'. run_committed env sv cm k opers table data = Inr (results, events, table', data')"
  using assms(1,3)
proof (induction opers arbitrary: k table data)
  case (Cons oper opers)
  obtain result data1 where run: "runCarriedOperation env data oper = Inr (result, data1)"
      "run_all env data1 opers = Inr data'"
    using Cons.prems by (auto simp: err_simps)
  let ?w = "outcome_of APPLIED (cm_index cm) (cm_term cm) None (Some result) None"
  have "\<forall>j \<ge> Suc k. jm_get (jm_set (op_key p k) ?w table) (op_key p j) = None"
    using Cons.prems(2) by (simp add: jm_get_set)
  from Cons.IH [OF run(2) this] obtain results events table' where
    "run_committed env sv cm (Suc k) opers (jm_set (op_key p k) ?w table) data1 = Inr (results, events, table', data')"
    by blast
  then show ?case using run(1) Cons.prems(2) assms(2)
    by (simp add: recordCommittedStatementOutcome_def Let_def op_key_def)
qed simp

subsection \<open>The ledger under committed entries\<close>

lemma record_rows:
  assumes "recordCommittedOperationCdc s events l = Inr (n, effs, l')"
  shows "table_rows l' = table_rows l @ (if partitionOwesCdc s then map as_owed (owed_of events) else [])"
proof (cases "partitionOwesCdc s \<and> events \<noteq> []")
  case True
  then have "insert_all (ensureCdcObligationLedger l) (owed_of events) = Inr l'"
    using assms by (auto simp: recordCommittedOperationCdc_def err_simps)
  from insert_all_spec [OF this ensure_simps(5)] True show ?thesis by simp
next
  case False
  then show ?thesis using assms by (auto simp: recordCommittedOperationCdc_def split: if_splits)
qed

lemma insert_all_total:
  assumes "cdcObligationLedgerExists l" "distinct (map o_eventKey rs)" "distinct (map position rs)"
    and "o_eventKey ` set rs \<inter> o_eventKey ` set (table_rows l) = {}"
    and "position ` set rs \<inter> position ` set (table_rows l) = {}"
  shows "\<exists>l'. insert_all l rs = Inr l'"
  using assms
proof (induction rs arbitrary: l)
  case (Cons r rs)
  obtain ts where ts: "l_rows l = Some ts" "table_rows l = ts"
    using Cons.prems(1) by (auto simp: cdcObligationLedgerExists_def table_rows_def)
  let ?l1 = "l\<lparr>l_rows := Some (ts @ [as_owed r])\<rparr>"
  have ins: "insertCdcObligation l r = Inr ?l1"
    using Cons.prems(4,5) by (auto simp: insertCdcObligation_def ts as_owed_def)
  have "\<exists>l'. insert_all ?l1 rs = Inr l'"
    by (rule Cons.IH)
       (use Cons.prems ts(2) in \<open>auto simp: cdcObligationLedgerExists_def as_owed_def position_def\<close>)
  then show ?case using ins by simp
qed simp

text \<open>Recording the events of one entry never fails when their keys are new.\<close>

lemma record_total:
  assumes "ledger_state_ok (m, l)" "m < i" "op_events cm p k n events" "cm_index cm = i"
    and "o_eventKey ` set (owed_of events) \<inter> o_eventKey ` set (table_rows l) = {}"
  shows "\<exists>n' effs l'. recordCommittedOperationCdc s events l = Inr (n', effs, l')"
proof -
  have ev: "\<And>e. e \<in> set (owed_of events) \<Longrightarrow> o_logIndex e = i \<and> (\<exists>j. o_eventKey e = op_key p j \<and> o_ordinal e = int j)"
    using assms(3,4) by (auto simp: op_events_def)
  have ord: "distinct (map o_ordinal (owed_of events))" using assms(3) by (simp add: op_events_def)
  have pos: "distinct (map position (owed_of events))"
    using ord ev by (auto simp: distinct_map inj_on_def position_def)
  have "o_ordinal e = o_ordinal f"
    if "e \<in> set (owed_of events)" "f \<in> set (owed_of events)" "o_eventKey e = o_eventKey f" for e f
    using ev [OF that(1)] ev [OF that(2)] that(3) by auto
  with ord have keys: "distinct (map o_eventKey (owed_of events))"
    unfolding distinct_map inj_on_def by blast
  have "o_logIndex e \<noteq> o_logIndex f" if "e \<in> set (owed_of events)" "f \<in> set (table_rows l)" for e f
    using assms(1,2) ev [OF that(1)] that(2) by (auto simp: ledger_state_ok_def)
  then have "position ` set (owed_of events) \<inter> position ` set (table_rows l) = {}"
    by (auto simp: position_def)
  then have "\<exists>l'. insert_all (ensureCdcObligationLedger l) (owed_of events) = Inr l'"
    using keys pos assms(5) by (intro insert_all_total) simp_all
  then show ?thesis by (auto simp: recordCommittedOperationCdc_def)
qed

lemma acknowledge_keeps:
  assumes "ledger_state_ok (m, l)" "m < i" "i < max_safe"
    and "applyCdcAcknowledgementCommand ns h partitionId c i trm l = Inr (out, effs, l')"
  shows "o_eventKey ` set (table_rows l') \<subseteq> o_eventKey ` set (table_rows l)"
    and "length (owed_rows l') \<le> length (owed_rows l)"
proof -
  from acknowledge_ok [OF assms] have *: "o_eventKey ` set (table_rows l') \<subseteq> o_eventKey ` set (table_rows l) \<and>
      length (owed_rows l') \<le> length (owed_rows l)"
  proof
    assume "\<exists>K l1. marks_to K l l1 \<and> reclaims_to l1 l'"
    then obtain K l1 where l1: "marks_to K l l1" "reclaims_to l1 l'" by blast
    have "o_eventKey ` set (table_rows l1) = o_eventKey ` set (table_rows l)"
      using l1(1) unfolding marks_to_def by (metis list.set_map)
    moreover have "set (table_rows l') \<subseteq> set (table_rows l1)" "owed_rows l' = owed_rows l1"
      using l1(2) by (simp_all add: reclaims_to_def)
    moreover have "length (owed_rows l1) \<le> length (owed_rows l)" using l1(1) by (simp add: marks_to_def)
    ultimately show ?thesis by (metis image_mono)
  qed simp
  then show "o_eventKey ` set (table_rows l') \<subseteq> o_eventKey ` set (table_rows l)"
    "length (owed_rows l') \<le> length (owed_rows l)" by auto
qed

text \<open>
  What one entry of the log does to the ledger is one step of the ledger's own specification.
\<close>

lemma no_events_step:
  "m < i \<Longrightarrow> i < max_safe \<Longrightarrow> ledger_step ns h partitionId s (m, l) (i, l)"
  by (rule record_events [of m i "[]" s l 0 "[]"]) (simp_all add: recordCommittedOperationCdc_def)

lemma statement_event:
  assumes "recordCommittedStatementCdc build s data entry snapshot i trm key l = Inr (n, effs, l')"
  obtains "l' = l"
  | json where "\<not> snapshot" "partitionOwesCdc s" "build data entry = Some json"
      "recordCommittedOperationCdc s [Owed (owed_event key i trm 0 (e_entryId entry) json)] l = Inr (n, effs, l')"
  using assms by (auto simp: recordCommittedStatementCdc_def split: if_splits option.splits)

lemma db_step_ledger:
  assumes "db_step env sv i db db'" "m < i" "i < max_safe"
  shows "ledger_step (en_ns env) (en_hash env) (sv_partitionId sv) (sv_cdc sv) (m, pd_ledger db) (i, pd_ledger db')"
  using assms
proof (induction rule: db_step.induct)
  case (acknowledged k trm db out effs l')
  then show ?case by (auto intro: acknowledge)
next
  case (statement_applied db x w g entry snapshot data' trm n cdc l')
  from statement_applied(6) show ?case
  proof (cases rule: statement_event)
    case 1
    then show ?thesis using statement_applied.prems by (simp add: no_events_step)
  next
    case (2 json)
    show ?thesis using record_events [OF statement_applied.prems _ 2(4)] by (simp add: owed_event_def)
  qed
next
  case (row_committed row db t p cm opers results events table' data' d db' g n cdc l')
  have "op_events cm p 0 (length opers) events" using run_committed_spec [OF row_committed(7,5)] by simp
  then show ?case
    using record_events [OF row_committed.prems _ row_committed(11)] row_committed(4) by (simp add: op_events_def)
qed (auto simp: update_Inr intro: no_events_step)

subsection \<open>The invariant\<close>

abbreviation prepared_rows :: "ptx_row list \<Rightarrow> ptx_row list" where
  "prepared_rows rows \<equiv> filter (\<lambda>r. r_state r = PREPARED) rows"

definition op_count :: "ptx_row \<Rightarrow> nat" where
  "op_count r = (case row_operations r of Some opers \<Rightarrow> length opers | None \<Rightarrow> 0)"

definition row_ok :: "service \<Rightarrow> ptx_row \<Rightarrow> bool" where
  "row_ok sv r \<longleftrightarrow> names_partition sv r \<and> r_state r \<in> {PREPARED, COMMITTED, ROLLED_BACK, REFUSED}"

definition rows_ok :: "service \<Rightarrow> ptx_row list \<Rightarrow> bool" where
  "rows_ok sv rows \<longleftrightarrow> distinct (map r_participantId rows) \<and> length (prepared_rows rows) \<le> 1 \<and>
     (\<forall>r \<in> set rows. row_ok sv r)"

definition generation_ok :: "int \<Rightarrow> gen_row option \<Rightarrow> bool" where
  "generation_ok m gen \<longleftrightarrow> (\<exists>g. gen = Some g \<and> 0 \<le> g_generation g \<and> g_generation g \<le> m \<and>
     (\<forall>i t. g_origin g = Some (i, t) \<longrightarrow> 0 < i \<and> i \<le> m))"

text \<open>An outcome is a statement's or a committed transaction's, and the latter has all of its own.\<close>

definition outcomes_ok :: "ptx_row list \<Rightarrow> outcome_table \<Rightarrow> bool" where
  "outcomes_ok rows table \<longleftrightarrow> jm_wf table \<and>
     (\<forall>key w. jm_get table key = Some w \<longrightarrow> w_outcome w \<in> {APPLIED, STATEMENT_FAILED} \<and>
        (\<forall>p k. key = op_key p k \<longrightarrow>
           (\<exists>r \<in> set rows. r_participantId r = p \<and> r_state r = COMMITTED \<and> k < op_count r))) \<and>
     (\<forall>r \<in> set rows. r_state r = COMMITTED \<longrightarrow>
        (\<forall>k < op_count r. \<exists>w. jm_get table (op_key (r_participantId r) k) = Some w \<and> w_outcome w = APPLIED))"

definition events_ok :: "outcome_table \<Rightarrow> ledger \<Rightarrow> bool" where
  "events_ok table l \<longleftrightarrow>
     (\<forall>r \<in> set (table_rows l). \<exists>w. jm_get table (o_eventKey r) = Some w \<and> w_outcome w = APPLIED)"

definition reserved_slots :: "service \<Rightarrow> ptx_row list \<Rightarrow> nat" where
  "reserved_slots sv rows =
     (if partitionOwesCdc (sv_cdc sv) then sum_list (map op_count (prepared_rows rows)) else 0)"

definition capacity_ok :: "service \<Rightarrow> 'd pdb \<Rightarrow> bool" where
  "capacity_ok sv db \<longleftrightarrow> length (owed_rows (pd_ledger db)) + reserved_slots sv (pd_rows db) \<le> OWED_MAX_EVENTS"

text \<open>
  A prepared row was judged over the data as it still is. Its commit runs on a table whose data only
  statements and commits change; the coordinator's own table is written by settlements as well.
\<close>

definition prepared_ok :: "'d env \<Rightarrow> service \<Rightarrow> 'd pdb \<Rightarrow> bool" where
  "prepared_ok env sv db \<longleftrightarrow>
     (\<forall>r \<in> set (pd_rows db). r_state r = PREPARED \<longrightarrow>
        validationTextHereOf env sv db = Inr (r_validationText r) \<and> r_validationText r \<noteq> None \<and>
        (\<exists>opers. row_operations r = Some opers \<and>
           (isCoordinatorTable (sv_tableName sv) \<or> (\<exists>data'. run_all env (pd_data db) opers = Inr data'))))"

definition db_ok :: "'d env \<Rightarrow> service \<Rightarrow> int \<times> 'd pdb \<Rightarrow> bool" where
  "db_ok env sv s \<longleftrightarrow>
     (case s of (m, db) \<Rightarrow> rows_ok sv (pd_rows db) \<and> generation_ok m (pd_generation db) \<and>
        outcomes_ok (pd_rows db) (pd_outcomes db) \<and> events_ok (pd_outcomes db) (pd_ledger db) \<and>
        ledger_state_ok (m, pd_ledger db) \<and> capacity_ok sv db \<and> prepared_ok env sv db)"

lemma db_okD:
  assumes "db_ok env sv (m, db)"
  shows "rows_ok sv (pd_rows db)" "generation_ok m (pd_generation db)" "outcomes_ok (pd_rows db) (pd_outcomes db)"
    "events_ok (pd_outcomes db) (pd_ledger db)" "ledger_state_ok (m, pd_ledger db)" "capacity_ok sv db"
    "prepared_ok env sv db"
  using assms by (simp_all add: db_ok_def)

subsection \<open>Rows\<close>

lemma reserved_iff: "isPartitionReserved db \<longleftrightarrow> prepared_rows (pd_rows db) \<noteq> []"
  by (auto simp: isPartitionReserved_def filter_empty_conv)

lemma decided_rows_ids [simp]: "map r_participantId (decided_rows t p d rows) = map r_participantId rows"
  by (simp add: decided_rows_def decide_row_def)

lemma in_decided_rows:
  "r \<in> set (decided_rows t p d rows) \<longleftrightarrow>
     (\<exists>q \<in> set rows. r = (if has_key t p q \<and> r_state q = PREPARED then decide_row d q else q))"
  by (auto simp: decided_rows_def)

lemma decide_row_simps [simp]:
  "r_state (decide_row d r) = dc_state d" "r_participantId (decide_row d r) = r_participantId r"
  "names_partition sv (decide_row d r) = names_partition sv r" "op_count (decide_row d r) = op_count r"
  "row_operations (decide_row d r) = row_operations r"
  by (simp_all add: decide_row_def names_partition_def op_count_def row_operations_def)

text \<open>There is one prepared row at most, so a decision leaves none.\<close>

lemma decided_prepared:
  assumes "length (prepared_rows rows) \<le> 1" "dc_state d \<noteq> PREPARED"
    and "length (filter (\<lambda>r. has_key t p r \<and> r_state r = PREPARED) rows) = 1"
  shows "prepared_rows (decided_rows t p d rows) = []"
proof -
  have hits: "filter (\<lambda>r. has_key t p r \<and> r_state r = PREPARED) rows = filter (has_key t p) (prepared_rows rows)"
    by (simp add: conj_commute)
  with assms(3) have "length (filter (has_key t p) (prepared_rows rows)) = 1" by simp
  moreover have "length (filter (has_key t p) (prepared_rows rows)) \<le> length (prepared_rows rows)"
    by (rule length_filter_le)
  ultimately have "filter (has_key t p) (prepared_rows rows) = prepared_rows rows"
    using assms(1) by (metis filter_id_conv length_filter_less linorder_not_less order.trans)
  then have "\<forall>r \<in> set (prepared_rows rows). has_key t p r" unfolding filter_id_conv .
  then have "\<forall>r \<in> set rows. r_state r = PREPARED \<longrightarrow> has_key t p r" by simp
  then show ?thesis using assms(2) by (auto simp: decided_rows_def filter_empty_conv)
qed

lemma rows_ok_append:
  assumes "rows_ok sv (pd_rows db)" "row_ok sv r" "fresh_row db r"
    and "r_state r = PREPARED \<longrightarrow> \<not> isPartitionReserved db"
  shows "rows_ok sv (pd_rows db @ [r])"
proof -
  have "r_participantId q \<noteq> r_participantId r" if "q \<in> set (pd_rows db)" for q
    using assms(1,2,3) that participant_id_inject [of sv q r] by (auto simp: rows_ok_def row_ok_def fresh_row_def has_key_def)
  then have "r_participantId r \<notin> r_participantId ` set (pd_rows db)" by force
  then show ?thesis using assms by (auto simp: rows_ok_def reserved_iff)
qed

lemma rows_ok_decided:
  assumes "rows_ok sv rows" "dc_state d \<in> {COMMITTED, ROLLED_BACK, REFUSED}"
    and "length (filter (\<lambda>r. has_key t p r \<and> r_state r = PREPARED) rows) = 1"
  shows "rows_ok sv (decided_rows t p d rows)"
proof -
  have "prepared_rows (decided_rows t p d rows) = []"
    by (rule decided_prepared) (use assms in \<open>auto simp: rows_ok_def\<close>)
  moreover have "row_ok sv (decide_row d q)" if "row_ok sv q" for q
    using that assms(2) by (auto simp: row_ok_def)
  ultimately show ?thesis using assms(1) by (auto simp: rows_ok_def in_decided_rows)
qed

lemma rows_step:
  assumes "db_step env sv i db db'" "rows_ok sv (pd_rows db)"
  shows "rows_ok sv (pd_rows db')"
  using assms
proof (induction rule: db_step.induct)
  case (row_closed r db)
  then show ?case by (auto simp: row_ok_def intro: rows_ok_append)
next
  case (row_prepared r db opers data')
  then show ?case by (auto simp: row_ok_def intro: rows_ok_append)
qed (auto simp: update_Inr intro: rows_ok_decided)

lemma generation_step:
  assumes "db_step env sv i db db'" "generation_ok m (pd_generation db)" "0 \<le> m" "m < i"
  shows "generation_ok i (pd_generation db')"
proof -
  obtain g where g: "pd_generation db = Some g" "0 \<le> g_generation g" "g_generation g \<le> m"
      "\<And>k t. g_origin g = Some (k, t) \<Longrightarrow> 0 < k \<and> k \<le> m"
    using assms(2) unfolding generation_ok_def by blast
  have kept: "generation_ok i (Some g)" and bumped: "generation_ok i (Some (bump_generation g))"
    using g(2-4) assms(4) by (fastforce simp: generation_ok_def bump_generation_def)+
  have origin: "generation_ok i (Some \<lparr>g_generation = 0, g_origin = Some (i, trm)\<rparr>)" for trm
    using assms(3,4) by (simp add: generation_ok_def)
  from assms(1) show ?thesis
    by (cases rule: db_step.cases) (use g(1) kept bumped origin in \<open>auto simp: update_Inr\<close>)
qed

subsection \<open>Outcomes and events\<close>

lemma row_of_participant:
  assumes "rows_ok sv rows" "r \<in> set rows" "q \<in> set rows" "r_participantId r = r_participantId q"
  shows "r = q"
  using assms by (auto simp: rows_ok_def distinct_map dest: inj_onD)

lemma outcomes_okD:
  assumes "outcomes_ok rows table"
  shows "jm_wf table" "jm_get table key = Some w \<Longrightarrow> w_outcome w \<in> {APPLIED, STATEMENT_FAILED}"
    "jm_get table (op_key p k) = Some w \<Longrightarrow>
       \<exists>r \<in> set rows. r_participantId r = p \<and> r_state r = COMMITTED \<and> k < op_count r"
    "r \<in> set rows \<Longrightarrow> r_state r = COMMITTED \<Longrightarrow> k < op_count r \<Longrightarrow>
       \<exists>w. jm_get table (op_key (r_participantId r) k) = Some w \<and> w_outcome w = APPLIED"
  using assms by (simp_all add: outcomes_ok_def)

lemma outcomes_okI:
  assumes "jm_wf table" "\<And>key w. jm_get table key = Some w \<Longrightarrow> w_outcome w \<in> {APPLIED, STATEMENT_FAILED}"
    and "\<And>p k w. jm_get table (op_key p k) = Some w \<Longrightarrow>
       \<exists>r \<in> set rows. r_participantId r = p \<and> r_state r = COMMITTED \<and> k < op_count r"
    and "\<And>r k. r \<in> set rows \<Longrightarrow> r_state r = COMMITTED \<Longrightarrow> k < op_count r \<Longrightarrow>
       \<exists>w. jm_get table (op_key (r_participantId r) k) = Some w \<and> w_outcome w = APPLIED"
  shows "outcomes_ok rows table"
  using assms unfolding outcomes_ok_def by blast

lemma prepared_fresh:
  assumes "outcomes_ok rows table" "rows_ok sv rows" "r \<in> set rows" "r_state r \<noteq> COMMITTED"
  shows "jm_get table (op_key (r_participantId r) k) = None"
proof (rule ccontr)
  assume "jm_get table (op_key (r_participantId r) k) \<noteq> None"
  then obtain w where "jm_get table (op_key (r_participantId r) k) = Some w" by blast
  from outcomes_okD(3) [OF assms(1) this] obtain q where
    "q \<in> set rows" "r_participantId q = r_participantId r" "r_state q = COMMITTED" by blast
  then show False using row_of_participant [OF assms(2,3)] assms(4) by metis
qed

lemma outcomes_ok_entry:
  assumes "outcomes_ok rows table" "w_outcome w \<in> {APPLIED, STATEMENT_FAILED}"
  shows "outcomes_ok rows (jm_set (entry_key x) w table)"
  using outcomes_okD [OF assms(1)] assms(2)
  by (intro outcomes_okI) (auto simp: jm_get_set split: if_splits)

lemma outcomes_ok_append:
  "outcomes_ok rows table \<Longrightarrow> r_state r \<noteq> COMMITTED \<Longrightarrow> outcomes_ok (rows @ [r]) table"
  by (rule outcomes_okI) (auto dest: outcomes_okD)

lemma outcomes_ok_closed:
  assumes "outcomes_ok rows table" "dc_state d \<noteq> COMMITTED"
  shows "outcomes_ok (decided_rows t p d rows) table"
proof -
  have old: "r \<in> set (decided_rows t p d rows) \<and> r_state r = COMMITTED \<longleftrightarrow> r \<in> set rows \<and> r_state r = COMMITTED" for r
    using assms(2) by (auto simp: in_decided_rows split: if_splits intro!: bexI [of _ r])
  show ?thesis
    by (rule outcomes_okI) (use outcomes_okD [OF assms(1)] old in \<open>blast+\<close>)
qed

lemma outcomes_ok_committed:
  assumes ok: "outcomes_ok rows table" and rows: "rows_ok sv rows"
    and row: "row \<in> set rows" "has_key t p row" "r_state row = PREPARED"
    and ops: "op_outcomes p 0 (op_count row) table table'" and d: "dc_state d = COMMITTED"
  shows "outcomes_ok (decided_rows t p d rows) table'"
proof -
  have p: "r_participantId row = p" using row(2) by (simp add: has_key_def)
  have hit: "has_key t p q \<and> r_state q = PREPARED \<longleftrightarrow> q = row" if "q \<in> set rows" for q
    using row row_of_participant [OF rows that row(1)] p by (auto simp: has_key_def)
  have dec: "decide_row d row \<in> set (decided_rows t p d rows)"
    using row by (force simp: in_decided_rows)
  have old: "q \<in> set (decided_rows t p d rows)" if "q \<in> set rows" "r_state q = COMMITTED" for q
    using that by (force simp: in_decided_rows)
  have new: "q = decide_row d row \<or> q \<in> set rows" if "q \<in> set (decided_rows t p d rows)" for q
    using that hit by (auto simp: in_decided_rows split: if_splits)
  have other: "jm_get table' key = jm_get table key" if "\<forall>k < op_count row. key \<noteq> op_key p k" for key
    using ops that by (auto simp: op_outcomes_def)
  have own: "\<exists>w. jm_get table' (op_key p k) = Some w \<and> w_outcome w = APPLIED" if "k < op_count row" for k
    using ops that by (auto simp: op_outcomes_def)
  show ?thesis
  proof (rule outcomes_okI)
    show "jm_wf table'" using outcomes_okD(1) [OF ok] ops by (simp add: op_outcomes_def)
  next
    fix key w assume key: "jm_get table' key = Some w"
    show "w_outcome w \<in> {APPLIED, STATEMENT_FAILED}"
    proof (cases "\<exists>k < op_count row. key = op_key p k")
      case True
      then show ?thesis using own key by fastforce
    next
      case False
      then have "jm_get table key = Some w" using other key by metis
      then show ?thesis by (rule outcomes_okD(2) [OF ok])
    qed
  next
    fix q k w assume key: "jm_get table' (op_key q k) = Some w"
    show "\<exists>r \<in> set (decided_rows t p d rows). r_participantId r = q \<and> r_state r = COMMITTED \<and> k < op_count r"
    proof (cases "q = p \<and> k < op_count row")
      case True
      then show ?thesis using dec d p by (intro bexI [of _ "decide_row d row"]) simp_all
    next
      case False
      then have "jm_get table (op_key q k) = Some w" using other [of "op_key q k"] key by auto
      then show ?thesis using outcomes_okD(3) [OF ok] old by blast
    qed
  next
    fix q k assume q: "q \<in> set (decided_rows t p d rows)" "r_state q = COMMITTED" "k < op_count q"
    show "\<exists>w. jm_get table' (op_key (r_participantId q) k) = Some w \<and> w_outcome w = APPLIED"
    proof (cases "q = decide_row d row")
      case True
      then show ?thesis using own q(3) p by simp
    next
      case False
      then have q': "q \<in> set rows" using new q(1) by blast
      then have "r_participantId q \<noteq> p"
        using row_of_participant [OF rows q' row(1)] p q(2) row(3) by auto
      then show ?thesis using outcomes_okD(4) [OF ok q' q(2,3)] other by simp
    qed
  qed
qed

lemma op_count_Some: "row_operations r = Some opers \<Longrightarrow> op_count r = length opers"
  by (simp add: op_count_def)

lemma outcomes_step:
  assumes "db_step env sv i db db'" "rows_ok sv (pd_rows db)" "outcomes_ok (pd_rows db) (pd_outcomes db)"
  shows "outcomes_ok (pd_rows db') (pd_outcomes db')"
  using assms
proof (induction rule: db_step.induct)
  case (row_committed row db t p cm opers results events table' data' d db' g n cdc l')
  have "op_outcomes p 0 (op_count row) (pd_outcomes db) table'"
    using run_committed_spec [OF row_committed(7,5)] op_count_Some [OF row_committed(6)] by simp
  from outcomes_ok_committed [OF row_committed.prems(2,1) row_committed(1-3) this row_committed(9)]
  show ?case using row_committed(8) by (simp add: update_Inr)
qed (auto simp: update_Inr intro: outcomes_ok_entry outcomes_ok_append outcomes_ok_closed)

text \<open>An outcome is never removed or replaced.\<close>

lemma outcomes_mono:
  assumes "db_step env sv i db db'" "jm_get (pd_outcomes db) key = Some w"
  shows "jm_get (pd_outcomes db') key = Some w"
  using assms
proof (induction rule: db_step.induct)
  case (row_committed row db t p cm opers results events table' data' d db' g n cdc l')
  have "op_outcomes p 0 (length opers) (pd_outcomes db) table'"
    using run_committed_spec [OF row_committed(7,5)] by simp
  then show ?case using row_committed.prems by (cases "\<exists>k < length opers. key = op_key p k") (auto simp: op_outcomes_def)
qed (auto simp: update_Inr jm_get_set)

lemma events_ok_mono:
  assumes "events_ok table l" "o_eventKey ` set (table_rows l') \<subseteq> o_eventKey ` set (table_rows l)"
    and "\<And>key w. jm_get table key = Some w \<Longrightarrow> jm_get table' key = Some w"
  shows "events_ok table' l'"
  unfolding events_ok_def
proof
  fix r assume "r \<in> set (table_rows l')"
  then have "o_eventKey r \<in> o_eventKey ` set (table_rows l)" using assms(2) by blast
  then obtain q where q: "q \<in> set (table_rows l)" "o_eventKey q = o_eventKey r" by (auto simp: image_iff)
  from q(1) assms(1) obtain w where "jm_get table (o_eventKey q) = Some w" "w_outcome w = APPLIED"
    unfolding events_ok_def by blast
  then show "\<exists>w. jm_get table' (o_eventKey r) = Some w \<and> w_outcome w = APPLIED" using assms(3) q(2) by auto
qed

lemma events_ok_record:
  assumes "events_ok table l" "recordCommittedOperationCdc s events l = Inr (n, effs, l')"
    and "\<And>key w. jm_get table key = Some w \<Longrightarrow> jm_get table' key = Some w"
    and "\<And>e. e \<in> set (owed_of events) \<Longrightarrow> \<exists>w. jm_get table' (o_eventKey e) = Some w \<and> w_outcome w = APPLIED"
  shows "events_ok table' l'"
proof -
  have old: "events_ok table' l" by (rule events_ok_mono [OF assms(1) _ assms(3)]) simp_all
  have "\<exists>w. jm_get table' (o_eventKey r) = Some w \<and> w_outcome w = APPLIED"
    if "r \<in> as_owed ` set (owed_of events)" for r
    using that assms(4) by (auto simp: as_owed_def)
  with old show ?thesis unfolding events_ok_def record_rows [OF assms(2)] by (simp add: ball_Un)
qed

lemma events_step:
  assumes "db_step env sv i db db'" "events_ok (pd_outcomes db) (pd_ledger db)"
    and "ledger_state_ok (m, pd_ledger db)" "m < i" "i < max_safe"
  shows "events_ok (pd_outcomes db') (pd_ledger db')"
proof -
  note mono = outcomes_mono [OF assms(1)]
  from assms(1) show ?thesis
    using assms(2-5) mono
  proof (cases rule: db_step.cases)
    case (acknowledged k trm out effs l')
    show ?thesis unfolding acknowledged(1)
      using events_ok_mono [OF assms(2) acknowledge_keeps(1) [OF assms(3-5) acknowledged(2)]] by simp
  next
    case (statement_applied x w g entry snapshot data' trm n cdc l')
    have w: "jm_get (pd_outcomes db') (entry_key x) = Some w" by (simp add: statement_applied(1) jm_get_set)
    from statement_applied(7) show ?thesis
    proof (cases rule: statement_event)
      case 1
      show ?thesis by (rule events_ok_mono [OF assms(2) _ mono]) (simp_all add: statement_applied(1) 1)
    next
      case (2 json)
      have "events_ok (pd_outcomes db') l'"
        by (rule events_ok_record [OF assms(2) 2(4) mono]) (use w statement_applied(4) in \<open>simp_all add: owed_event_def\<close>)
      then show ?thesis by (simp add: statement_applied(1))
    qed
  next
    case (row_committed row t p cm opers results events table' data' d db1 g n cdc l')
    have run: "op_events cm p 0 (length opers) events" "op_outcomes p 0 (length opers) (pd_outcomes db) table'"
      using run_committed_spec [OF row_committed(8,6)] by simp_all
    have out: "pd_outcomes db' = table'" "pd_ledger db' = l'" by (simp_all add: row_committed(1))
    show ?thesis unfolding out
    proof (rule events_ok_record [OF assms(2) row_committed(12)])
      show "\<exists>w. jm_get table' (o_eventKey e) = Some w \<and> w_outcome w = APPLIED" if "e \<in> set (owed_of events)" for e
        using run that by (fastforce simp: op_events_def op_outcomes_def)
    qed (use mono out in simp)
  qed (auto simp: update_Inr intro: events_ok_mono)
qed

subsection \<open>Capacity and preparation\<close>

lemma admitted:
  "admitCdcOwedWork l n = CDC_ADMITTED \<Longrightarrow> n = 0 \<or> length (owed_rows l) + n \<le> OWED_MAX_EVENTS"
  by (auto simp: admitCdcOwedWork_def counts_eq split: if_splits)

lemma unreserved_slots: "\<not> isPartitionReserved db \<Longrightarrow> reserved_slots sv (pd_rows db) = 0"
  by (simp add: reserved_iff reserved_slots_def)

lemma length_owed_of: "length (owed_of events) \<le> length events"
  by (induction events rule: owed_of.induct) auto

lemma record_owed:
  assumes "recordCommittedOperationCdc s events l = Inr (n, effs, l')"
  shows "length (owed_rows l') \<le> length (owed_rows l) + (if partitionOwesCdc s then length events else 0)"
proof -
  have "length (filter is_owed xs) \<le> length xs" for xs by (rule length_filter_le)
  then show ?thesis
    using length_owed_of [of events] record_rows [OF assms]
    by (auto simp: owed_rows_def intro: order_trans)
qed

lemma altering_owes_nothing: "e_type entry = MIGRATION_ALTER_TABLE \<Longrightarrow> en_build env data entry = None"
  by (simp add: en_build_def buildEvent_def resolveEventEnvelope_def determineOperation_def)

lemma prepared_only:
  assumes "rows_ok sv rows" "r \<in> set rows" "r_state r = PREPARED"
  shows "prepared_rows rows = [r]"
proof -
  have "r \<in> set (prepared_rows rows)" "length (prepared_rows rows) \<le> 1" using assms by (auto simp: rows_ok_def)
  then show ?thesis by (cases "prepared_rows rows") auto
qed

lemma decided_unreserved:
  assumes "rows_ok sv (pd_rows db)" "updateParticipantTransactionDecided db t p d = Inr db'" "dc_state d \<noteq> PREPARED"
  shows "prepared_rows (pd_rows db') = []"
  using decided_prepared [of "pd_rows db" d t p] assms by (auto simp: update_Inr rows_ok_def)

lemma capacity_step:
  assumes "db_step env sv i db db'" "capacity_ok sv db" "rows_ok sv (pd_rows db)"
    and "ledger_state_ok (m, pd_ledger db)" "m < i" "i < max_safe"
  shows "capacity_ok sv db'"
  using assms(1)
proof (cases rule: db_step.cases)
  case (acknowledged k trm out effs l')
  show ?thesis
    using acknowledge_keeps(2) [OF assms(4-6) acknowledged(2)] assms(2) by (simp add: acknowledged(1) capacity_ok_def)
next
  case (statement_applied x w g entry snapshot data' trm n cdc l')
  have free: "reserved_slots sv (pd_rows db) = 0" using statement_applied(2) by (rule unreserved_slots)
  from statement_applied(7) show ?thesis
  proof (cases rule: statement_event)
    case 1
    then show ?thesis using assms(2) by (simp add: statement_applied(1) capacity_ok_def)
  next
    case (2 json)
    then have "e_type entry \<noteq> MIGRATION_ALTER_TABLE" using altering_owes_nothing [of entry env data'] by auto
    then have "length (owed_rows (pd_ledger db)) + 1 \<le> OWED_MAX_EVENTS"
      using admitted [OF statement_applied(6)] 2(1,2) by (simp add: statement_slots_def)
    then show ?thesis using record_owed [OF 2(4)] 2(2) free by (simp add: statement_applied(1) capacity_ok_def)
  qed
next
  case (row_prepared r opers data')
  have "prepared_rows (pd_rows db) = []" using row_prepared(5) by (simp add: reserved_iff)
  then have "reserved_slots sv (pd_rows db') = (if partitionOwesCdc (sv_cdc sv) then length opers else 0)"
    using row_prepared(2) op_count_Some [OF row_prepared(8)] by (simp add: row_prepared(1) reserved_slots_def)
  then show ?thesis
    using admitted [OF row_prepared(10)] assms(2) unreserved_slots [OF row_prepared(5)]
    by (auto simp: row_prepared(1) capacity_ok_def split: if_splits)
next
  case (row_committed row t p cm opers results events table' data' d db1 g n cdc l')
  have "prepared_rows (pd_rows db1) = []"
    by (rule decided_unreserved [OF assms(3) row_committed(9)]) (simp add: row_committed(10))
  then have none: "reserved_slots sv (pd_rows db') = 0" by (simp add: row_committed(1) reserved_slots_def)
  have "prepared_rows (pd_rows db) = [row]" by (rule prepared_only [OF assms(3) row_committed(2,4)])
  then have "reserved_slots sv (pd_rows db) = (if partitionOwesCdc (sv_cdc sv) then length opers else 0)"
    using op_count_Some [OF row_committed(7)] by (simp add: reserved_slots_def)
  moreover have "length events \<le> length opers"
    using run_committed_spec [OF row_committed(8,6)] by (simp add: op_events_def)
  moreover have "pd_ledger db' = l'" by (simp add: row_committed(1))
  ultimately show ?thesis
    using record_owed [OF row_committed(12)] assms(2) none by (auto simp: capacity_ok_def split: if_splits)
next
  case (rolled_back t p d)
  then have "prepared_rows (pd_rows db') = []" by (intro decided_unreserved [OF assms(3) rolled_back(1)]) simp
  then show ?thesis using assms(2) rolled_back(1) by (auto simp: capacity_ok_def reserved_slots_def update_Inr)
next
  case (commit_refused row t p cm d)
  then have "prepared_rows (pd_rows db') = []" by (intro decided_unreserved [OF assms(3) commit_refused(7)]) simp
  then show ?thesis using assms(2) commit_refused(7) by (auto simp: capacity_ok_def reserved_slots_def update_Inr)
qed (use assms(2) in \<open>auto simp: capacity_ok_def reserved_slots_def\<close>)

lemma validationTextHereOf_cong:
  "pd_generation db' = pd_generation db \<Longrightarrow> validationTextHereOf env sv db' = validationTextHereOf env sv db"
  unfolding validationTextHereOf_def readPartitionWriteOrigin_def readPartitionWriteGeneration_def
    generationRowOf_def by simp

lemma prepared_ok_none: "prepared_rows (pd_rows db) = [] \<Longrightarrow> prepared_ok env sv db"
  by (auto simp: prepared_ok_def filter_empty_conv)

lemma prepared_ok_cong:
  assumes "prepared_ok env sv db" "set (prepared_rows (pd_rows db')) \<subseteq> set (prepared_rows (pd_rows db))"
    and "pd_generation db' = pd_generation db" "pd_data db' = pd_data db \<or> isCoordinatorTable (sv_tableName sv)"
  shows "prepared_ok env sv db'"
proof -
  have "r \<in> set (pd_rows db)" if "r \<in> set (pd_rows db')" "r_state r = PREPARED" for r
    using assms(2) that by auto
  then show ?thesis
    using assms(1,4) unfolding prepared_ok_def validationTextHereOf_cong [OF assms(3)] by (metis (no_types))
qed

lemma prepared_ok_origin:
  assumes "prepared_ok env sv db" "pd_generation db = Some g" "g_origin g = None"
  shows "prepared_rows (pd_rows db) = []"
proof -
  have "validationTextHereOf env sv db = Inr None"
    using assms(2,3) by (simp add: validationTextHereOf_def readPartitionWriteOrigin_def generationRowOf_def)
  then show ?thesis using assms(1) by (auto simp: prepared_ok_def filter_empty_conv)
qed

lemma prepared_step:
  assumes "db_step env sv i db db'" "prepared_ok env sv db" "rows_ok sv (pd_rows db)"
  shows "prepared_ok env sv db'"
  using assms(1)
proof (cases rule: db_step.cases)
  case (row_prepared r opers data')
  have "prepared_rows (pd_rows db) = []" using row_prepared(5) by (simp add: reserved_iff)
  moreover have "validationTextHereOf env sv db' = validationTextHereOf env sv db"
    by (rule validationTextHereOf_cong) (simp add: row_prepared(1))
  ultimately show ?thesis
    using row_prepared(6-9) by (auto simp: prepared_ok_def row_prepared(1) filter_empty_conv)
next
  case (origin_recorded g data' trm)
  then show ?thesis using prepared_ok_origin [OF assms(2)] by (intro prepared_ok_none) simp
next
  case (rolled_back t p d)
  then show ?thesis using decided_unreserved [OF assms(3) rolled_back(1)] by (intro prepared_ok_none) simp
next
  case (commit_refused row t p cm d)
  then show ?thesis using decided_unreserved [OF assms(3) commit_refused(7)] by (intro prepared_ok_none) simp
next
  case (row_committed row t p cm opers results events table' data' d db1 g n cdc l')
  then show ?thesis using decided_unreserved [OF assms(3) row_committed(9)] by (intro prepared_ok_none) simp
next
  case (row_closed r)
  then show ?thesis using assms(2) by (intro prepared_ok_cong [OF assms(2)]) auto
qed (use assms(2) in \<open>auto simp: reserved_iff intro: prepared_ok_none prepared_ok_cong\<close>)

subsection \<open>Every entry keeps the invariant\<close>

lemma db_ok_step:
  assumes "db_ok env sv (m, db)" "db_step env sv i db db'" "m < i" "i < max_safe"
  shows "db_ok env sv (i, db')"
proof -
  note ok = db_okD [OF assms(1)]
  have m: "0 \<le> m" using ok(5) by (simp add: ledger_state_ok_def)
  have "ledger_state_ok (i, pd_ledger db')"
    by (rule ledger_run.step_inv [OF ok(5) db_step_ledger [OF assms(2-4)]])
  then show ?thesis
    using rows_step [OF assms(2) ok(1)] generation_step [OF assms(2) ok(2) m assms(3)]
      outcomes_step [OF assms(2) ok(1,3)] events_step [OF assms(2) ok(4,5) assms(3,4)]
      capacity_step [OF assms(2) ok(6,1,5) assms(3,4)] prepared_step [OF assms(2) ok(7,1)]
    by (simp add: db_ok_def)
qed

interpretation log: invariant_system "entry_step env sv" "db_ok env sv" for env sv
proof
  fix s s' assume "db_ok env sv s" "entry_step env sv s s'"
  then show "db_ok env sv s'"
    by (cases s, cases s') (auto dest!: entry_step_db intro: db_ok_step)
qed

text \<open>A partition that was just created and opened.\<close>

definition created :: "'d \<Rightarrow> 'd pdb" where
  "created data = openParticipantTransactionStore
     \<lparr>pd_rows = [], pd_generation = None, pd_outcomes = [],
      pd_ledger = \<lparr>l_rows = None, l_progress = None\<rparr>, pd_data = data\<rparr>"

lemma created_simps [simp]:
  "pd_rows (created data) = []" "pd_outcomes (created data) = []" "pd_data (created data) = data"
  "pd_generation (created data) = Some \<lparr>g_generation = 0, g_origin = None\<rparr>"
  "pd_ledger (created data) = \<lparr>l_rows = None, l_progress = None\<rparr>"
  by (simp_all add: created_def openParticipantTransactionStore_def)

lemma created_ok: "db_ok env sv (0, created data)"
  by (simp add: db_ok_def rows_ok_def generation_ok_def outcomes_ok_def events_ok_def capacity_ok_def prepared_ok_def
      reserved_slots_def ledger_state_ok_def ledger_ok_def table_rows_def owed_rows_def readCdcObligationProgress_def)

lemma reopen:
  assumes "db_ok env sv (m, db)"
  shows "openParticipantTransactionStore db = db"
proof -
  obtain g where "pd_generation db = Some g" using db_okD(2) [OF assms] by (auto simp: generation_ok_def)
  then show ?thesis by (simp add: openParticipantTransactionStore_def)
qed

end
