(* ===== verification/EntryProperties.thy ===== *)
theory EntryProperties
  imports EntryInvariant
begin

text \<open>
  What the application of the log guarantees: properties of every run of committed entries, read off the
  invariant and the specification of one entry.
\<close>

subsection \<open>Decisions over a prepared row\<close>

lemma prepared_hit:
  assumes "rows_ok sv rows" "row \<in> set rows" "r_state row = PREPARED" "has_key t p row"
  shows "length (filter (\<lambda>r. has_key t p r \<and> r_state r = PREPARED) rows) = 1"
proof -
  have "filter (\<lambda>r. has_key t p r \<and> r_state r = PREPARED) rows = filter (has_key t p) (prepared_rows rows)"
    by (simp add: conj_commute)
  then show ?thesis using prepared_only [OF assms(1-3)] assms(4) by simp
qed

lemma find_unique:
  "x \<in> set xs \<Longrightarrow> P x \<Longrightarrow> (\<And>y. y \<in> set xs \<Longrightarrow> P y \<Longrightarrow> y = x) \<Longrightarrow> List.find P xs = Some x"
proof (induction xs)
  case (Cons y xs)
  show ?case
  proof (cases "P y")
    case True
    then show ?thesis using Cons.prems(3) [of y] by simp
  next
    case False
    then have "x \<in> set xs" using Cons.prems(1,2) by auto
    from Cons.IH [OF this Cons.prems(2)] Cons.prems(3) False show ?thesis by simp
  qed
qed simp

lemma find_decided:
  assumes "rows_ok sv rows" "row \<in> set rows" "r_state row = PREPARED" "has_key t p row"
  shows "List.find (has_key t p) (decided_rows t p d rows) = Some (decide_row d row)"
proof -
  have same: "q = row" if "q \<in> set rows" "has_key t p q" for q
    using row_of_participant [OF assms(1) that(1) assms(2)] that(2) assms(4) by (simp add: has_key_def)
  have key: "has_key t p (decide_row d q) = has_key t p q" for q by (simp add: has_key_def decide_row_def)
  have "decide_row d row \<in> set (decided_rows t p d rows)" "has_key t p (decide_row d row)"
    using assms(2-4) key by (force simp: in_decided_rows)+
  moreover have "q = decide_row d row" if "q \<in> set (decided_rows t p d rows)" "has_key t p q" for q
    using that same assms(3,4) key by (auto simp: in_decided_rows split: if_splits)
  ultimately show ?thesis by (intro find_unique)
qed

lemma decide_total:
  assumes "rows_ok sv (pd_rows db)" "participant_row db (cm_command cm) = Some row" "r_state row = PREPARED"
  obtains db' where "decide cm db st refusal = Inr db'"
    "participant_row db' (cm_command cm) = Some (decide_row (decidedOf cm st refusal) row)"
    "\<exists>rows. db' = db\<lparr>pd_rows := rows\<rparr>" "st \<noteq> PREPARED \<Longrightarrow> \<not> isPartitionReserved db'"
proof -
  obtain t p where tp: "c_transactionId (cm_command cm) = Text t" "c_participantId (cm_command cm) = Text p"
      "row \<in> set (pd_rows db)" "has_key t p row"
    by (rule participant_row_Some [OF assms(2)])
  let ?db' = "db\<lparr>pd_rows := decided_rows t p (decidedOf cm st refusal) (pd_rows db)\<rparr>"
  have "decide cm db st refusal = Inr ?db'"
    using prepared_hit [OF assms(1) tp(3) assms(3) tp(4)] tp(1,2) by (simp add: decide_def update_Inr)
  moreover have "participant_row ?db' (cm_command cm) = Some (decide_row (decidedOf cm st refusal) row)"
    using find_decided [OF assms(1) tp(3) assms(3) tp(4)] tp(1,2)
    by (simp add: participant_row_def readParticipantTransactionRow_def)
  moreover have "\<not> isPartitionReserved ?db'" if "st \<noteq> PREPARED"
    using decided_prepared [OF _ _ prepared_hit [OF assms(1) tp(3) assms(3) tp(4)], of "decidedOf cm st refusal"]
      assms(1) that by (simp add: rows_ok_def reserved_iff)
  ultimately show ?thesis using that by blast
qed

lemma participant_row_cong:
  "pd_rows db = pd_rows db' \<Longrightarrow> participant_row db c = participant_row db' c"
  by (simp add: participant_row_def readParticipantTransactionRow_def split: field.splits)

lemma record_events_total:
  assumes "db_ok env sv (m, db)" "m < cm_index cm" "participant_row db (cm_command cm) = Some row"
    and "r_state row \<noteq> COMMITTED" "c_participantId (cm_command cm) = Text p" "op_events cm p k n events"
  shows "\<exists>n' effs l'. recordCommittedOperationCdc s events (pd_ledger db) = Inr (n', effs, l')"
proof (rule record_total [OF db_okD(5) [OF assms(1)] assms(2,6) refl])
  note ok = db_okD [OF assms(1)]
  obtain t q where tp: "c_participantId (cm_command cm) = Text q" "row \<in> set (pd_rows db)" "has_key t q row"
    by (rule participant_row_Some [OF assms(3)])
  then have p: "r_participantId row = p" using assms(5) by (simp add: has_key_def)
  have "jm_get (pd_outcomes db) (op_key p j) = None" for j
    using prepared_fresh [OF ok(3,1) tp(2) assms(4)] p by simp
  then have old: "o_eventKey e \<noteq> op_key p j" if "e \<in> set (table_rows (pd_ledger db))" for e j
    using ok(4) that unfolding events_ok_def by (metis option.distinct(1))
  have "\<exists>j. o_eventKey e = op_key p j" if "e \<in> set (owed_of events)" for e
    using assms(6) that unfolding op_events_def by blast
  with old show "o_eventKey ` set (owed_of events) \<inter> o_eventKey ` set (table_rows (pd_ledger db)) = {}"
    by (auto simp: image_iff) metis
qed

text \<open>Committing over a prepared row: applied, refused with an alarm, or stopped by the environment.\<close>

lemma commit_run:
  assumes ok: "db_ok env sv (m, db)" and i: "m < cm_index cm"
    and row: "participant_row db (cm_command cm) = Some row" "r_state row = PREPARED"
    and run: "row_operations row = Some opers"
      "run_committed env sv cm 0 opers (pd_outcomes db) (pd_data db) = Inr (results, events, table', data')"
  shows "\<exists>effs db'. commitPrepared env sv cm db row = Inr (APPLIED, effs, db') \<and>
     participant_row db' (cm_command cm) = Some (decide_row (decidedOf cm COMMITTED None) row) \<and> pd_data db' = data' \<and>
     \<not> isPartitionReserved db'"
proof -
  note inv = db_okD [OF ok]
  obtain t p where tp: "c_participantId (cm_command cm) = Text p" "row \<in> set (pd_rows db)" "has_key t p row"
    by (rule participant_row_Some [OF row(1)])
  have here: "validationTextHereOf env sv db = Inr (r_validationText row)"
    using inv(7) tp(2) row(2) by (simp add: prepared_ok_def)
  obtain g where g: "pd_generation db = Some g" using inv(2) by (auto simp: generation_ok_def)
  let ?db1 = "db\<lparr>pd_outcomes := table', pd_data := data'\<rparr>"
  have "rows_ok sv (pd_rows ?db1)" "participant_row ?db1 (cm_command cm) = Some row"
    using inv(1) row(1) participant_row_cong [of ?db1 db] by simp_all
  from decide_total [OF this row(2), of COMMITTED None] obtain db2 rows' where db2: "decide cm ?db1 COMMITTED None = Inr db2"
      "participant_row db2 (cm_command cm) = Some (decide_row (decidedOf cm COMMITTED None) row)"
      "db2 = ?db1\<lparr>pd_rows := rows'\<rparr>" "\<not> isPartitionReserved db2" by (metis ptx_state.distinct(1))
  define gen where "gen = (if 0 < length opers then Some (g_generation g + 1) else None)"
  define db3 where "db3 = (if 0 < length opers then db2\<lparr>pd_generation := Some (bump_generation g)\<rparr> else db2)"
  have adv: "(if 0 < length opers
      then bindE (advancePartitionWriteGeneration db2) (\<lambda>db2.
             bindE (readPartitionWriteGeneration db2) (\<lambda>g. Inr (Some g, db2)))
      else Inr (None, db2)) = Inr (gen, db3)"
    using g by (simp add: db2(3) gen_def db3_def advancePartitionWriteGeneration_def readPartitionWriteGeneration_def
        generationRowOf_def bump_generation_def)
  have led: "pd_ledger db3 = pd_ledger db" by (simp add: db3_def db2(3))
  have "op_events cm p 0 (length opers) events" using run_committed_spec [OF run(2) tp(1)] by simp
  then obtain n cdc l' where cdc: "recordCommittedOperationCdc (sv_cdc sv) events (pd_ledger db) = Inr (n, cdc, l')"
    using record_events_total [OF ok i row(1) _ tp(1)] row(2) by fastforce
  have "commitPrepared env sv cm db row =
      Inr (APPLIED, commit_effects cm db3 (length opers) gen results cdc, db3\<lparr>pd_ledger := l'\<rparr>)"
    unfolding commitPrepared_def here bindE_Inr run(1) [unfolded row_operations_def] option.case run(2) sum.case
      split_conv db2(1) adv led cdc ledger_result_def by simp
  moreover have "participant_row (db3\<lparr>pd_ledger := l'\<rparr>) (cm_command cm) = participant_row db2 (cm_command cm)"
    by (rule participant_row_cong) (simp add: db3_def)
  moreover have "pd_data (db3\<lparr>pd_ledger := l'\<rparr>) = data'" by (simp add: db3_def db2(3))
  moreover have "\<not> isPartitionReserved (db3\<lparr>pd_ledger := l'\<rparr>)"
    using db2(4) by (simp add: isPartitionReserved_def db3_def)
  ultimately show ?thesis using db2(2) by metis
qed

lemma commit_total:
  assumes ok: "db_ok env sv (m, db)" and i: "m < cm_index cm"
    and row: "participant_row db (cm_command cm) = Some row" "r_state row = PREPARED"
    and user: "\<not> isCoordinatorTable (sv_tableName sv)"
  shows "\<exists>effs db' opers. commitPrepared env sv cm db row = Inr (APPLIED, effs, db') \<and>
     participant_row db' (cm_command cm) = Some (decide_row (decidedOf cm COMMITTED None) row) \<and>
     row_operations row = Some opers \<and> run_all env (pd_data db) opers = Inr (pd_data db') \<and>
     \<not> isPartitionReserved db'"
proof -
  note inv = db_okD [OF ok]
  obtain t p where tp: "c_participantId (cm_command cm) = Text p" "row \<in> set (pd_rows db)" "has_key t p row"
    by (rule participant_row_Some [OF row(1)])
  obtain opers data' where opers: "row_operations row = Some opers" "run_all env (pd_data db) opers = Inr data'"
    using inv(7) tp(2) row(2) user unfolding prepared_ok_def by blast
  have "\<forall>j \<ge> 0. jm_get (pd_outcomes db) (op_key p j) = None"
    using prepared_fresh [OF inv(3,1) tp(2)] row(2) tp(3) by (simp add: has_key_def)
  from run_committed_total [OF opers(2) tp(1) this] obtain results events table' where
    "run_committed env sv cm 0 opers (pd_outcomes db) (pd_data db) = Inr (results, events, table', data')" by blast
  from commit_run [OF ok i row opers(1) this] opers show ?thesis by blast
qed

lemma over_prepared_total:
  assumes ok: "db_ok env sv (m, db)" and i: "m < cm_index cm"
    and row: "participant_row db (cm_command cm) = Some row" "r_state row = PREPARED"
    and user: "\<not> isCoordinatorTable (sv_tableName sv)"
    and match: "decisionMatchesPreparedRow (cm_command cm) (r_preparedDigest row)"
  shows "\<exists>effs db' row'. decideOverPrepared env sv cm db row = Inr (APPLIED, effs, db') \<and>
     \<not> isPartitionReserved db' \<and> participant_row db' (cm_command cm) = Some row' \<and>
     (if c_decision (cm_command cm) = Text COMMIT
      then r_state row' = COMMITTED \<and>
        (\<exists>opers. row_operations row = Some opers \<and> run_all env (pd_data db) opers = Inr (pd_data db'))
      else r_state row' = ROLLED_BACK \<and> pd_data db' = pd_data db)"
proof (cases "c_decision (cm_command cm) = Text COMMIT")
  case True
  then show ?thesis
    using commit_total [OF ok i row user] match by (fastforce simp: decideOverPrepared_def Let_def)
next
  case False
  obtain db' where db': "decide cm db ROLLED_BACK None = Inr db'"
      "participant_row db' (cm_command cm) = Some (decide_row (decidedOf cm ROLLED_BACK None) row)"
      "\<exists>rows. db' = db\<lparr>pd_rows := rows\<rparr>" "\<not> isPartitionReserved db'"
    by (rule decide_total [OF db_okD(1) [OF ok] row]) auto
  then have "pd_data db' = pd_data db" by auto
  with db'(1,2,4) False match show ?thesis by (auto simp: decideOverPrepared_def Let_def)
qed


subsection \<open>The two phases\<close>

text \<open>The leader's \<open>PREPARE\<close>, built over the current base, is applied and reserves the partition.\<close>

lemma prepare_applies:
  fixes st :: stamp and trm :: int
  assumes ok: "db_ok env sv (m, db)" and i: "m < i" "i < max_safe"
    and ident: "identityRefusalOf (identity_carrier ident) (sv_partitionId sv) = None" "i_transactionId ident = Text t"
    and new: "\<forall>q \<in> set (pd_rows db). r_transactionId q \<noteq> t" and free: "\<not> isPartitionReserved db"
    and here: "validationTextHereOf env sv db = Inr (Some val)"
    and opers: "operationsOf (Text ops) = Some opers" "run_all env (pd_data db) opers = Inr data'"
    and room: "partitionOwesCdc (sv_cdc sv) \<longrightarrow> length (owed_rows (pd_ledger db)) + length opers \<le> OWED_MAX_EVENTS"
  defines "cm \<equiv> \<lparr>cm_command = buildPrepareCommand (en_hash env) ident ops val st, cm_index = i, cm_term = trm\<rparr>"
  shows "\<exists>effs. applyParticipantPrepare env sv cm db =
     Inr (APPLIED, effs, db\<lparr>pd_rows := pd_rows db @ [preparedRowOf cm PREPARED None None]\<rparr>)"
proof -
  let ?c = "cm_command cm" and ?r = "preparedRowOf cm PREPARED None None"
  have c: "?c = buildPrepareCommand (en_hash env) ident ops val st" by (simp add: cm_def)
  have carrier: "carrier_of ?c = identity_carrier ident" by (simp add: c carrier_of_def identity_carrier_def)
  have none: "participant_row db ?c = None"
    using new ident(2)
    by (auto simp: c participant_row_def readParticipantTransactionRow_def find_None_iff has_key_def split: field.splits)
  obtain g oi ot where g: "pd_generation db = Some g" "g_origin g = Some (oi, ot)"
      "val = validationTextOf (en_ns env) (en_hash env) (g_generation g) (sv_partitionId sv) oi"
    using here by (auto simp: validationTextHereOf_def readPartitionWriteOrigin_def readPartitionWriteGeneration_def
        generationRowOf_def err_simps split: option.splits)
  have "\<bar>oi\<bar> \<le> max_safe" using db_okD(2) [OF ok] g(1,2) i by (auto simp: generation_ok_def)
  then have origin: "readPartitionWriteOrigin db = Inr (Some (oi, ot))" "carriedOriginIndexOf (Text val) = Some oi"
    using g by (simp_all add: readPartitionWriteOrigin_def generationRowOf_def carriedOriginIndexOf_validationTextOf)
  have dry: "dryRunCarriedOperations env (pd_data db) (Text ops) = Inr None"
    using opers by (simp add: dryRunCarriedOperations_def)
  have "admitCdcOwedWork (pd_ledger db) (prepare_slots (sv_cdc sv) db ?c) = CDC_ADMITTED"
    using room opers(1) none
    by (auto simp: c prepare_slots_def participant_row_def operations_length_def admitCdcOwedWork_def counts_eq)
  moreover have "fresh_row db ?r" using new ident(2) by (simp add: fresh_row_def has_key_def c)
  then have "insertParticipantTransactionRow db ?r = Inr (db\<lparr>pd_rows := pd_rows db @ [?r]\<rparr>)"
    by (simp add: insert_row_Inr)
  ultimately have "\<exists>effs. prepareUnreserved env sv cm db = Inr (APPLIED, effs, db\<lparr>pd_rows := pd_rows db @ [?r]\<rparr>)"
    using here dry by (simp add: prepareUnreserved_def Let_def c)
  then show ?thesis
    unfolding prepare_unfold carrier ident(1) option.case none using origin free by (simp add: c origin_matches_def)
qed

lemma find_append_new: "\<forall>q \<in> set xs. \<not> P q \<Longrightarrow> P x \<Longrightarrow> List.find P (xs @ [x]) = Some x"
  by (induction xs) auto

lemma two_phase:
  fixes st :: stamp
  assumes ok: "db_ok env sv (m, db)" and i: "m < i" "i < j" "j < max_safe"
    and user: "\<not> isCoordinatorTable (sv_tableName sv)" and free: "\<not> isPartitionReserved db"
    and ident: "identityRefusalOf (identity_carrier ident) (sv_partitionId sv) = None"
      "i_transactionId ident = Text t" "i_participantId ident = Text p" "sv_partitionId sv \<noteq> []"
    and env: "isExecutionEnvelope (s_executionEnvelope st)"
    and new: "\<forall>q \<in> set (pd_rows db). r_transactionId q \<noteq> t"
    and here: "validationTextHereOf env sv db = Inr (Some val)"
    and opers: "operationsOf (Text ops) = Some opers" "run_all env (pd_data db) opers = Inr data'"
    and room: "partitionOwesCdc (sv_cdc sv) \<longrightarrow> length (owed_rows (pd_ledger db)) + length opers \<le> OWED_MAX_EVENTS"
    and rec: "buildDecisionRecord (en_ns env) (en_hash env) t COMMIT (Some entries) = Some record"
      "(p, Some (preparedDigestOf (en_hash env) (Text ops) (Text val))) \<in> set (d_participants record)"
      "d_decisionDigest record \<noteq> []" "d_transactionId record = t" "d_decision record = COMMIT"
  defines "prepare \<equiv> buildPrepareCommand (en_hash env) ident ops val st"
    and "commit \<equiv> buildDecisionCommand ident (Text COMMIT)
      (Text (preparedDigestOf (en_hash env) (Text ops) (Text val)))
      (Text (d_decisionText record)) (Text (d_decisionDigest record)) st"
  shows "\<exists>effs db1 effs' db2 row.
     applyCommittedEntry env sv (ParticipantCommand prepare) i trm db = Inr (APPLIED, effs, db1) \<and>
     pd_data db1 = pd_data db \<and> isPartitionReserved db1 \<and>
     applyCommittedEntry env sv (ParticipantCommand commit) j trm' db1 = Inr (APPLIED, effs', db2) \<and>
     pd_data db2 = data' \<and> participant_row db2 commit = Some row \<and> r_state row = COMMITTED \<and>
     \<not> isPartitionReserved db2"
proof -
  let ?cm = "\<lparr>cm_command = prepare, cm_index = i, cm_term = trm\<rparr>"
    and ?cm' = "\<lparr>cm_command = commit, cm_index = j, cm_term = trm'\<rparr>"
  let ?r = "preparedRowOf ?cm PREPARED None None"
  let ?db1 = "db\<lparr>pd_rows := pd_rows db @ [?r]\<rparr>"
  obtain effs where prep: "applyParticipantPrepare env sv ?cm db = Inr (APPLIED, effs, ?db1)"
    using prepare_applies [OF ok i(1) _ ident(1,2) new free here opers room, of st trm] i
    unfolding prepare_def by auto
  then have app: "applyCommittedEntry env sv (ParticipantCommand prepare) i trm db =
      Inr (APPLIED, WitnessHlc # map ParticipantEffect (noteExecutionEnvelope sv prepare @ effs @ [EntryCommitted]), ?db1)"
    by (simp add: applyCommittedEntry_def applyCommittedTransactionCommand_def applyParticipantCommand_def
        lift_applied_def) (simp add: prepare_def)
  have ok1: "db_ok env sv (i, ?db1)"
    by (rule db_ok_step [OF ok applyCommittedEntry_step [OF app] i(1)]) (use i in simp)
  have row: "participant_row ?db1 commit = Some ?r"
    using find_append_new [of "pd_rows db" "has_key t p" ?r] new ident(2,3)
    by (simp add: participant_row_def readParticipantTransactionRow_def commit_def prepare_def has_key_def)
  have fields: "r_state ?r = PREPARED" "r_preparedDigest ?r = Some (preparedDigestOf (en_hash env) (Text ops) (Text val))"
      "Text (r_commitMode ?r) = c_commitMode commit" "r_transactionEpoch ?r = command_epoch commit"
      "row_operations ?r = Some opers"
    using ident(1) opers(1)
    by (auto simp: preparedRowOf_def Let_def prepare_def commit_def textOrNull_def command_epoch_def row_operations_def
        identityRefusalOf_None identity_carrier_def isNonEmptyString_iff)
  have "isPinnedParticipantCommand (en_ns env) (en_hash env) commit"
    using built_decision_pinned [OF ident(1,4) env rec(1) [unfolded buildDecisionRecord_def option.case Let_def] rec(3)
        _ ident(3) rec(2)] ident(2) rec(4,5) by (simp add: commit_def)
  then have bound: "decisionBindingRefusalOf (en_ns env) (en_hash env) (binding_of commit) = None"
    by (simp add: isPinnedParticipantCommand_def isPinnedDecision_def commit_def split: if_splits)
  have carrier: "carrier_of commit = identity_carrier ident" by (simp add: commit_def carrier_of_def identity_carrier_def)
  have match: "decisionMatchesPreparedRow commit (r_preparedDigest ?r)"
    using fields(2) by (simp add: decisionMatchesPreparedRow_def commit_def)
  have decided: "c_decision commit = Text COMMIT" "c_type commit = PARTICIPANT_DECISION" by (simp_all add: commit_def)
  obtain effs' db2 row' where over: "decideOverPrepared env sv ?cm' ?db1 ?r = Inr (APPLIED, effs', db2)"
      "\<not> isPartitionReserved db2" "participant_row db2 commit = Some row'" "r_state row' = COMMITTED"
      "run_all env (pd_data ?db1) opers = Inr (pd_data db2)"
    using over_prepared_total [OF ok1, of ?cm' ?r] i(2) row fields(1,5) user match decided(1) by auto
  have "applyCommittedEntry env sv (ParticipantCommand commit) j trm' ?db1 =
      Inr (APPLIED, WitnessHlc # map ParticipantEffect (noteExecutionEnvelope sv commit @ effs' @ [EntryCommitted]), db2)"
    using over(1) row fields(1,3,4) bound ident(1) decided(2)
    by (simp add: applyCommittedEntry_def applyCommittedTransactionCommand_def applyParticipantCommand_def
        applyParticipantDecision_def lift_applied_def carrier)
  moreover have "isPartitionReserved ?db1" using fields(1) by (simp add: isPartitionReserved_def)
  moreover have "pd_data db2 = data'" using over(5) opers(2) by simp
  ultimately show ?thesis using app over(2-4) by (metis (no_types, lifting) pdb.select_convs(5) pdb.update_convs(1) pdb.surjective)
qed


subsection \<open>Runs of the log\<close>

text \<open>
  C14: Every committed entry refines the specification. Whatever the command, an application that does
  not throw changes the partition's database by one rule of \<open>db_step\<close>; at the next position of the log
  the ledger makes one step of its own specification, so that what is proved of either holds of the
  application.
\<close>

theorem applyCommittedEntry_refines:
  assumes "applyCommittedEntry env sv cmd i trm db = Inr (out, effs, db')"
  shows "db_step env sv i db db' \<and>
     (m < i \<and> i < max_safe \<longrightarrow> ledger_step (en_ns env) (en_hash env) (sv_partitionId sv) (sv_cdc sv)
        (m, pd_ledger db) (i, pd_ledger db'))"
  using applyCommittedEntry_step [OF assms] db_step_ledger by blast

text \<open>
  C8: The invariant of the store. Whatever sequence of committed entries a partition applies from its
  creation on, its database is well formed: participant rows are unique, name the partition and are in
  a durable state, with one prepared at most; the generation row is there; every outcome belongs to a
  statement or to a committed transaction; every CDC event belongs to an applied outcome and its
  position is new; the debt leaves room for the prepared operations; a prepared row was validated
  against the base that is current. Opening the store again changes nothing.
\<close>

theorem store_invariant:
  assumes "(entry_step env sv)\<^sup>*\<^sup>* (0, created data) (m, db)"
  shows "db_ok env sv (m, db) \<and> length (readPreparedParticipantIds db) \<le> 1 \<and> openParticipantTransactionStore db = db"
proof -
  have ok: "db_ok env sv (m, db)" by (rule log.run_inv [OF assms created_ok])
  then have "length (readPreparedParticipantIds db) \<le> 1"
    using db_okD(1) [OF ok] by (simp add: rows_ok_def readPreparedParticipantIds_def)
  with ok reopen [OF ok] show ?thesis by blast
qed

text \<open>What one entry may do to a row.\<close>

definition row_moves :: "ptx_row \<Rightarrow> ptx_row \<Rightarrow> bool" where
  "row_moves r r' \<longleftrightarrow> r' = r \<or>
     (r_state r = PREPARED \<and> (\<exists>d. dc_state d \<in> {COMMITTED, ROLLED_BACK, REFUSED} \<and> r' = decide_row d r))"

lemma row_moves_trans: "row_moves p q \<Longrightarrow> row_moves q r \<Longrightarrow> row_moves p r"
  by (auto simp: row_moves_def)

lemma rows_move_decided:
  assumes "updateParticipantTransactionDecided db t p d = Inr db'" "dc_state d \<in> {COMMITTED, ROLLED_BACK, REFUSED}"
    and "r \<in> set (pd_rows db)"
  shows "\<exists>r' \<in> set (pd_rows db'). row_moves r r'"
proof -
  let ?r = "if has_key t p r \<and> r_state r = PREPARED then decide_row d r else r"
  have "?r \<in> set (pd_rows db')" using assms(1,3) by (auto simp: update_Inr in_decided_rows)
  moreover have "row_moves r ?r" using assms(2) by (auto simp: row_moves_def)
  ultimately show ?thesis ..
qed

lemma rows_move:
  assumes "db_step env sv i db db'" "r \<in> set (pd_rows db)"
  shows "\<exists>r' \<in> set (pd_rows db'). row_moves r r'"
  using assms(1)
proof (cases rule: db_step.cases)
  case (rolled_back t p d)
  then show ?thesis using rows_move_decided [OF rolled_back(1) _ assms(2)] by simp
next
  case (commit_refused row t p cm d)
  then show ?thesis using rows_move_decided [OF commit_refused(7) _ assms(2)] by simp
next
  case (row_committed row t p cm opers results events table' data' d db1 g n cdc l')
  then show ?thesis using rows_move_decided [OF row_committed(9) _ assms(2)] by simp
qed (use assms(2) in \<open>auto simp: row_moves_def\<close>)

text \<open>
  C3: Terminal rows are final. Along every run of committed entries no participant row is lost, a row
  that is committed, rolled back or refused stays exactly as it is, and a prepared row stays as it is
  or becomes terminal by one decision, which changes neither its identity nor the content that was
  prepared. So no decision is ever reversed.
\<close>

theorem terminal_rows_are_final:
  assumes "(entry_step env sv)\<^sup>*\<^sup>* (m, db) (n, db')" "db_ok env sv (m, db)" "r \<in> set (pd_rows db)"
  shows "\<exists>r' \<in> set (pd_rows db'). row_moves r r' \<and>
     (r_state r \<noteq> PREPARED \<longrightarrow> r' = r) \<and> r_participantId r' = r_participantId r \<and>
     r_operationsText r' = r_operationsText r \<and> r_preparedDigest r' = r_preparedDigest r"
proof -
  have "\<exists>r' \<in> set (pd_rows (snd (n, db'))). row_moves r r'"
  proof (rule log.run_kept [OF assms(1,2)])
    show "\<exists>r' \<in> set (pd_rows (snd (m, db))). row_moves r r'" using assms(3) by (auto simp: row_moves_def)
  next
    fix u v :: "int \<times> 'a pdb"
    assume "entry_step env sv u v" "\<exists>r' \<in> set (pd_rows (snd u)). row_moves r r'"
    then show "\<exists>r' \<in> set (pd_rows (snd v)). row_moves r r'"
      by (cases u; cases v) (auto dest!: entry_step_db dest: rows_move intro: row_moves_trans)
  qed
  then show ?thesis by (auto simp: row_moves_def decide_row_def)
qed

text \<open>
  C4: The operations of a transaction take effect together. In every reachable store, a committed row
  has the applied outcome of each of its operations recorded, and a row in any other state has none: a
  transaction that is prepared, rolled back or refused has left no trace in the outcomes.
\<close>

theorem operations_take_effect_together:
  assumes "(entry_step env sv)\<^sup>*\<^sup>* (0, created data) (m, db)" "r \<in> set (pd_rows db)"
  shows "if r_state r = COMMITTED
     then \<forall>k < op_count r. \<exists>w. readCommittedStatementOutcome (pd_outcomes db)
            (operationOutcomeKeyOf (Text (r_participantId r)) k) = Some w \<and> w_outcome w = APPLIED
     else \<forall>k. readCommittedStatementOutcome (pd_outcomes db)
            (operationOutcomeKeyOf (Text (r_participantId r)) k) = None"
proof -
  note inv = db_okD [OF log.run_inv [OF assms(1) created_ok]]
  show ?thesis
    using outcomes_okD(4) [OF inv(3) assms(2)] prepared_fresh [OF inv(3,1) assms(2)]
    by (simp add: readCommittedStatementOutcome_def op_key_def)
qed

text \<open>
  C9: The debt of CDC events is bounded. In every reachable store the number of owed events, together
  with one slot for each operation of a prepared transaction, is at most the limit; so the commit of
  a prepared transaction never exceeds it.
\<close>

theorem owed_events_bounded:
  assumes "(entry_step env sv)\<^sup>*\<^sup>* (0, created data) (m, db)"
  shows "n_owed (countCdcObligations (pd_ledger db)) + reserved_slots sv (pd_rows db) \<le> OWED_MAX_EVENTS"
  using db_okD(6) [OF log.run_inv [OF assms created_ok]] by (simp add: capacity_ok_def counts_eq)

text \<open>While a row is prepared, an entry can only close other rows and settle the delivery of events.\<close>

lemma prepared_isolates_step:
  assumes "db_step env sv i db db'" "rows_ok sv (pd_rows db)" "prepared_ok env sv db"
    and "\<not> isCoordinatorTable (sv_tableName sv)"
    and "r \<in> set (pd_rows db)" "r \<in> set (pd_rows db')" "r_state r = PREPARED"
  shows "pd_data db' = pd_data db \<and> pd_generation db' = pd_generation db \<and> pd_outcomes db' = pd_outcomes db"
proof -
  have reserved: "isPartitionReserved db" using assms(5,7) by (auto simp: isPartitionReserved_def)
  have left: "prepared_rows (pd_rows db') \<noteq> []" using assms(6,7) by (auto simp: filter_empty_conv)
  from assms(1) show ?thesis
  proof (cases rule: db_step.cases)
    case (rolled_back t p d)
    then show ?thesis using left decided_unreserved [OF assms(2) rolled_back(1)] by simp
  next
    case (commit_refused row t p cm d)
    then show ?thesis using left decided_unreserved [OF assms(2) commit_refused(7)] by simp
  next
    case (row_committed row t p cm opers results events table' data' d db1 g n cdc l')
    then show ?thesis using left decided_unreserved [OF assms(2) row_committed(9)] by simp
  next
    case (origin_recorded g data' trm)
    then show ?thesis using prepared_ok_origin [OF assms(3)] reserved by (simp add: reserved_iff)
  qed (use reserved assms(4) in auto)
qed

text \<open>
  C6: A prepared transaction isolates the partition. On a table other than the coordinator's, as long
  as a row stays prepared no entry of the log changes the data, the write generation or a recorded
  outcome: statements, other transactions and settlements wait or are refused, so the commit runs on
  the data the preparation was judged over.
\<close>

theorem prepared_row_isolates:
  assumes "(entry_step env sv)\<^sup>*\<^sup>* (m, db) (n, db')" "db_ok env sv (m, db)" "\<not> isCoordinatorTable (sv_tableName sv)"
    and "r \<in> set (pd_rows db)" "r_state r = PREPARED" "r \<in> set (pd_rows db')"
  shows "pd_data db' = pd_data db \<and> pd_generation db' = pd_generation db \<and> pd_outcomes db' = pd_outcomes db"
proof -
  let ?P = "\<lambda>u. (\<exists>q \<in> set (pd_rows (snd u)). row_moves r q) \<and> (r \<in> set (pd_rows (snd u)) \<longrightarrow> pd_data (snd u) = pd_data db \<and>
      pd_generation (snd u) = pd_generation db \<and> pd_outcomes (snd u) = pd_outcomes db)"
  have "?P (n, db')"
  proof (rule log.run_kept [OF assms(1,2)])
    show "?P (m, db)" using assms(4) by (auto simp: row_moves_def)
  next
    fix u v assume inv: "db_ok env sv u" and step: "entry_step env sv u v" and P: "?P u"
    obtain k du l dv where uv: "u = (k, du)" "v = (l, dv)" by (cases u; cases v)
    have st: "db_step env sv l du dv" and ok: "db_ok env sv (l, dv)"
      using entry_step_db [of env sv k du l dv] step log.step_inv [OF inv step] uv by auto
    note rows = db_okD(1) [OF inv [unfolded uv(1)]] and rows' = db_okD(1) [OF ok]
    obtain q q' where q: "q \<in> set (pd_rows du)" "row_moves r q" "q' \<in> set (pd_rows dv)" "row_moves q q'"
      using P rows_move [OF st] uv(1) by fastforce
    have "r \<in> set (pd_rows du)" if r: "r \<in> set (pd_rows dv)"
    proof -
      have "r_participantId q' = r_participantId r" using q(2,4) by (auto simp: row_moves_def)
      then have "q' = r" using row_of_participant [OF rows' q(3) r] by simp
      then have "q = r" using q(2,4) assms(5) by (auto simp: row_moves_def)
      then show ?thesis using q(1) by simp
    qed
    then have "r \<in> set (pd_rows dv) \<longrightarrow> pd_data dv = pd_data db \<and> pd_generation dv = pd_generation db \<and>
        pd_outcomes dv = pd_outcomes db"
      using P prepared_isolates_step [OF st rows db_okD(7) [OF inv [unfolded uv(1)]] assms(3) _ _ assms(5)]
      by (auto simp: uv(1))
    then show "?P v" using q row_moves_trans [OF q(2,4)] by (auto simp: uv(2))
  qed
  then show ?thesis using assms(6) by simp
qed

text \<open>An entry that changes the data moves the generation.\<close>

lemma run_committed_Nil:
  "run_committed env sv cm k [] table data = Inr (results, events, table', data') \<Longrightarrow> data' = data"
  by simp

lemma generation_moves:
  assumes "db_step env sv i db db'" "pd_generation db = Some g" "g_origin g = Some og"
    and "\<not> isCoordinatorTable (sv_tableName sv)"
  shows "pd_data db' = pd_data db \<and> pd_generation db' = Some g \<or> pd_generation db' = Some (bump_generation g)"
  using assms(1)
proof (cases rule: db_step.cases)
  case (row_committed row t p cm opers results events table' data' d db1 g' n cdc l')
  then show ?thesis using assms(2) run_committed_Nil [of env sv cm 0 "pd_outcomes db" "pd_data db"]
    by (cases "opers = []") auto
qed (use assms(2-4) in \<open>auto simp: update_Inr\<close>)

lemma generation_run:
  assumes "(entry_step env sv)\<^sup>*\<^sup>* (m, db) (n, db')" "db_ok env sv (m, db)" "\<not> isCoordinatorTable (sv_tableName sv)"
    and "pd_generation db = Some g" "g_origin g = Some og"
  shows "m \<le> n \<and> (\<exists>g'. pd_generation db' = Some g' \<and> g_origin g' = Some og \<and>
     (g' = g \<and> pd_data db' = pd_data db \<or> g_generation g < g_generation g'))"
proof -
  let ?P = "\<lambda>u. m \<le> fst u \<and> (\<exists>g'. pd_generation (snd u) = Some g' \<and> g_origin g' = Some og \<and>
     (g' = g \<and> pd_data (snd u) = pd_data db \<or> g_generation g < g_generation g'))"
  have "?P (n, db')"
  proof (rule log.run_kept [OF assms(1,2)])
    show "?P (m, db)" using assms(4,5) by simp
  next
    fix u v assume step: "entry_step env sv u v" and P: "?P u"
    obtain k du l dv where uv: "u = (k, du)" "v = (l, dv)" by (cases u; cases v)
    note st = entry_step_db [of env sv k du l dv, OF step [unfolded uv]]
    obtain g' where g': "pd_generation du = Some g'" "g_origin g' = Some og"
        "g' = g \<and> pd_data du = pd_data db \<or> g_generation g < g_generation g'" "m \<le> k"
      using P uv(1) by auto
    have "pd_data dv = pd_data du \<and> pd_generation dv = Some g' \<or> pd_generation dv = Some (bump_generation g')"
      using generation_moves [OF _ g'(1,2) assms(3)] st by blast
    then show "?P v" using g' st by (auto simp: uv bump_generation_def)
  qed
  then show ?thesis by simp
qed

text \<open>
  C5: The validation text pins the data. Between two points of the log of one partition, on a table
  other than the coordinator's, an equal validation text means equal data and an equal generation,
  when the digest does not collide on generation texts: no write in between goes unseen, so a
  transaction validated by text equality is validated against the data it read.
\<close>

theorem validation_text_pins_data:
  assumes "(entry_step env sv)\<^sup>*\<^sup>* (m, db) (n, db')" "db_ok env sv (m, db)" "n < max_safe"
    and "\<not> isCoordinatorTable (sv_tableName sv)" "inj_on (en_hash env) (generation_text ` {0..})"
    and "validationTextHereOf env sv db = Inr (Some v)" "validationTextHereOf env sv db' = Inr (Some v)"
  shows "pd_data db' = pd_data db \<and> pd_generation db' = pd_generation db"
proof -
  obtain g oi ot where g: "pd_generation db = Some g" "g_origin g = Some (oi, ot)"
      "v = validationTextOf (en_ns env) (en_hash env) (g_generation g) (sv_partitionId sv) oi"
    using assms(6) by (auto simp: validationTextHereOf_def readPartitionWriteOrigin_def readPartitionWriteGeneration_def
        generationRowOf_def err_simps split: option.splits)
  obtain g' where g': "m \<le> n" "pd_generation db' = Some g'" "g_origin g' = Some (oi, ot)"
      "g' = g \<and> pd_data db' = pd_data db \<or> g_generation g < g_generation g'"
    using generation_run [OF assms(1,2,4) g(1,2)] by blast
  have v': "v = validationTextOf (en_ns env) (en_hash env) (g_generation g') (sv_partitionId sv) oi"
    using assms(7) g'(2,3) by (auto simp: validationTextHereOf_def readPartitionWriteOrigin_def
        readPartitionWriteGeneration_def generationRowOf_def err_simps)
  have bounds: "0 \<le> g_generation g" "g_generation g \<le> max_safe" "0 \<le> g_generation g'" "g_generation g' \<le> max_safe"
      "\<bar>oi\<bar> \<le> max_safe"
    using db_okD(2) [OF assms(2)] db_okD(2) [OF log.run_inv [OF assms(1,2)]] g(1,2) g'(1,2) assms(3)
    by (auto simp: generation_ok_def)
  have "g_generation g = g_generation g'"
    using validationTextOf_inject [OF assms(5) bounds bounds(5)] g(3) v' by blast
  then show ?thesis using g(1) g'(2,4) by simp
qed

text \<open>
  C7: A statement is executed once. Along every run an outcome that is recorded stays exactly as it
  was recorded; and a later command under the same entry identifier, whatever its statement and
  position, is answered from the record and leaves the whole database as it is.
\<close>

theorem statement_executed_once:
  assumes "(entry_step env sv)\<^sup>*\<^sup>* (m, db) (n, db')" "db_ok env sv (m, db)"
    and "readCommittedStatementOutcome (pd_outcomes db) (entry_key x) = Some w"
  shows "readCommittedStatementOutcome (pd_outcomes db') (entry_key x) = Some w \<and>
     (\<forall>q i trm out effs db''. q_entryId q = Text x \<and> isNonEmptyString (q_sql q) \<and>
        applyCommittedEntry env sv (SqlCommand q) i trm db' = Inr (out, effs, db'') \<longrightarrow>
        db'' = db' \<and> out = (if w_outcome w = APPLIED then REPLAYED else STATEMENT_FAILED))"
proof -
  have kept: "jm_get (pd_outcomes (snd (n, db'))) (entry_key x) = Some w"
  proof (rule log.run_kept [OF assms(1,2)])
    show "jm_get (pd_outcomes (snd (m, db))) (entry_key x) = Some w"
      using assms(3) by (simp add: readCommittedStatementOutcome_def)
  next
    fix u v :: "int \<times> 'a pdb"
    assume "entry_step env sv u v" "jm_get (pd_outcomes (snd u)) (entry_key x) = Some w"
    then show "jm_get (pd_outcomes (snd v)) (entry_key x) = Some w"
      by (cases u; cases v) (auto dest!: entry_step_db dest: outcomes_mono)
  qed
  have "db'' = db' \<and> out = (if w_outcome w = APPLIED then REPLAYED else STATEMENT_FAILED)"
    if q: "q_entryId q = Text x" "isNonEmptyString (q_sql q)"
      "applyCommittedEntry env sv (SqlCommand q) i trm db' = Inr (out, effs, db'')" for q i trm out effs db''
  proof -
    obtain effs' where "applyCommittedStatement env sv q i trm db' = Inr (out, effs', db'')"
      using q by (auto simp: applyCommittedEntry_def err_simps)
    then show ?thesis using kept q(1)
      by (auto simp: applyCommittedStatement_def err_simps Let_def readCommittedStatementOutcome_def
          settleRecordedCommittedStatement_def entry_key_def split: if_splits)
  qed
  with kept show ?thesis unfolding readCommittedStatementOutcome_def snd_conv by blast
qed

subsection \<open>When the application throws\<close>

text \<open>
  The failures the application may throw. The others report a broken store: an outcome key taken, a
  missing generation row, a decision that updates no row, a duplicate participant row, a ledger that
  refuses an event.
\<close>

definition expected_failure :: "service \<Rightarrow> log_command \<Rightarrow> host_failure \<Rightarrow> bool" where
  "expected_failure sv cmd f \<longleftrightarrow>
     (case f of
        CommandRefused _ \<Rightarrow> True
      | StatementEnvironmentFailed e \<Rightarrow> \<not> isDeterministicStatementFailure e True
      | DurableCommitWitnessInvalid \<Rightarrow> (\<exists>q. cmd = SqlCommand q)
      | SchemaEnforcementUnavailable \<Rightarrow> isCoordinatorTable (sv_tableName sv)
      | SettlementFailure \<Rightarrow> (\<exists>s. cmd = CoordinatorSettlement s)
      | _ \<Rightarrow> False)"

lemma expected_failure_simps [simp]:
  "expected_failure sv cmd (CommandRefused x)"
  "expected_failure sv cmd (StatementEnvironmentFailed e) \<longleftrightarrow> \<not> isDeterministicStatementFailure e True"
  "expected_failure sv (SqlCommand q) DurableCommitWitnessInvalid"
  "expected_failure sv cmd SchemaEnforcementUnavailable \<longleftrightarrow> isCoordinatorTable (sv_tableName sv)"
  "expected_failure sv (CoordinatorSettlement s) SettlementFailure"
  by (simp_all add: expected_failure_def)

lemma generation_present:
  assumes "db_ok env sv (m, db)"
  shows "\<exists>g here. pd_generation db = Some g \<and> readPartitionWriteOrigin db = Inr (g_origin g) \<and>
    validationTextHereOf env sv db = Inr here"
proof -
  obtain g where "pd_generation db = Some g" using db_okD(2) [OF assms] by (auto simp: generation_ok_def)
  then show ?thesis
    by (auto simp: validationTextHereOf_def readPartitionWriteOrigin_def readPartitionWriteGeneration_def
        generationRowOf_def split: option.splits)
qed

lemma fresh_insert:
  assumes "participant_row db c = None" "c_transactionId c = Text t" "c_participantId c = Text p"
    and "r_transactionId r = t" "r_participantId r = p"
  shows "insertParticipantTransactionRow db r = Inr (db\<lparr>pd_rows := pd_rows db @ [r]\<rparr>)"
  using assms
  by (auto simp: insert_row_Inr fresh_row_def participant_row_def readParticipantTransactionRow_def find_None_iff)

lemma refusePrepare_total:
  assumes "participant_row db (cm_command cm) = None" "identityRefusalOf (carrier_of (cm_command cm)) pid = None"
  shows "refusePrepare cm db refusal \<noteq> Inl f"
proof (rule identity_fields [OF assms(2)])
  fix t assume t: "c_transactionId (cm_command cm) = Text t" "c_participantId (cm_command cm) = Text (participantIdOf (Text t) pid)"
  show ?thesis
    using fresh_insert [OF assms(1) t, of "preparedRowOf cm REFUSED (Some (fst refusal)) (snd refusal)"] t
    by (simp add: refusePrepare_def)
qed

lemma deterministicRefusalOf_Inl:
  "deterministicRefusalOf e a b = Inl f \<Longrightarrow> f = StatementEnvironmentFailed e \<and> \<not> isDeterministicStatementFailure e True"
  by (auto simp: deterministicRefusalOf_def statementEnvironmentFailure_def split: if_splits)

lemma dry_run_Inl:
  assumes "dryRunCarriedOperations env data x = Inl f"
  shows "\<exists>e. f = StatementEnvironmentFailed e \<and> \<not> isDeterministicStatementFailure e True"
  using assms
  by (auto simp: dryRunCarriedOperations_def bindE_eq_Inl split: option.splits sum.splits dest!: deterministicRefusalOf_Inl)

lemma prepare_failure:
  assumes ok: "db_ok env sv (m, db)" and app: "applyParticipantPrepare env sv cm db = Inl f"
  shows "expected_failure sv cmd f"
proof -
  let ?c = "cm_command cm"
  obtain g :: gen_row and here where g: "readPartitionWriteOrigin db = Inr (g_origin g)" "validationTextHereOf env sv db = Inr here"
    using generation_present [OF ok] by blast
  have ident: "identityRefusalOf (carrier_of ?c) (sv_partitionId sv) = None" and none: "participant_row db ?c = None"
    using app by (auto simp: prepare_unfold split: option.splits)
  note refuse = refusePrepare_total [OF none ident]
  obtain t where t: "c_transactionId ?c = Text t" "c_participantId ?c = Text (participantIdOf (Text t) (sv_partitionId sv))"
    by (rule identity_fields [OF ident])
  have ins: "insertParticipantTransactionRow db (preparedRowOf cm PREPARED None None) \<noteq> Inl x" for x
    using fresh_insert [OF none t, of "preparedRowOf cm PREPARED None None"] t by simp
  have "refuseOriginMismatch cm db \<noteq> Inl f"
    using refuse by (auto simp: refuseOriginMismatch_def bindE_eq_Inl)
  then have "prepareUnreserved env sv cm db = Inl f"
    using app refuse unfolding prepare_unfold ident none option.case g(1) bindE_Inr by (auto split: if_splits)
  then have "dryRunCarriedOperations env (pd_data db) (c_operationsText ?c) = Inl f"
    using refuse ins unfolding prepareUnreserved_def Let_def g(2) bindE_Inr
    by (auto simp: bindE_eq_Inl split: if_splits option.splits cdc_admission.splits)
  then show ?thesis by (auto dest: dry_run_Inl)
qed

lemma commit_failure:
  assumes ok: "db_ok env sv (m, db)" and i: "m < cm_index cm"
    and row: "participant_row db (cm_command cm) = Some row" "r_state row = PREPARED"
    and app: "commitPrepared env sv cm db row = Inl f"
  shows "expected_failure sv cmd f"
proof -
  obtain here where here: "validationTextHereOf env sv db = Inr here" using generation_present [OF ok] by blast
  have refuse: "refuseCommit cm db refusal \<noteq> Inl x" for refusal x
    by (rule decide_total [OF db_okD(1) [OF ok] row, of REFUSED "Some refusal"])
       (simp add: refuseCommit_def Let_def)
  obtain opers where opers: "row_operations row = Some opers" and base: "r_validationText row = here"
    using app refuse unfolding commitPrepared_def here bindE_Inr
    by (auto simp: row_operations_def split: if_splits option.splits)
  show ?thesis
  proof (cases "run_committed env sv cm 0 opers (pd_outcomes db) (pd_data db)")
    case (Inl e)
    then have "bindE (deterministicRefusalOf e COMMIT_STATEMENT_FAILED COMMIT_STATEMENT_FAILED)
        (\<lambda>refusal. refuseCommit cm db refusal) = Inl f"
      using app opers base unfolding commitPrepared_def here bindE_Inr by (simp add: row_operations_def)
    then show ?thesis using refuse by (auto simp: bindE_eq_Inl dest!: deterministicRefusalOf_Inl)
  next
    case (Inr res)
    obtain results events table' data' where "res = (results, events, table', data')" by (cases res)
    then show ?thesis using commit_run [OF ok i row opers] Inr app by fastforce
  qed
qed

lemma decision_failure:
  assumes ok: "db_ok env sv (m, db)" and i: "m < cm_index cm" and app: "applyParticipantDecision env sv cm db = Inl f"
  shows "expected_failure sv cmd f"
proof -
  let ?c = "cm_command cm"
  have ident: "identityRefusalOf (carrier_of ?c) (sv_partitionId sv) = None"
      "decisionBindingRefusalOf (en_ns env) (en_hash env) (binding_of ?c) = None"
    using app by (auto simp: applyParticipantDecision_def Let_def split: option.splits)
  obtain t where t: "c_transactionId ?c = Text t" "c_participantId ?c = Text (participantIdOf (Text t) (sv_partitionId sv))"
    by (rule identity_fields [OF ident(1)])
  show ?thesis
  proof (cases "participant_row db ?c")
    case None
    then have "decideAbsent cm db = Inl f" using app ident by (simp add: applyParticipantDecision_def Let_def)
    then show ?thesis
      using fresh_insert [OF None t, of "tombstone cm"] t by (auto simp: decideAbsent_def Let_def split: if_splits)
  next
    case (Some row)
    then have "row \<in> set (pd_rows db)" by (auto elim: participant_row_Some)
    then have "row_ok sv row" using db_okD(1) [OF ok] by (simp add: rows_ok_def)
    then have over: "r_state row = PREPARED" "decideOverPrepared env sv cm db row = Inl f"
      using app ident Some by (auto simp: applyParticipantDecision_def Let_def row_ok_def split: if_splits)
    have "decide cm db ROLLED_BACK None \<noteq> Inl f"
      by (rule decide_total [OF db_okD(1) [OF ok] Some over(1), of ROLLED_BACK None]) simp
    then have "commitPrepared env sv cm db row = Inl f"
      using over(2) by (auto simp: decideOverPrepared_def Let_def bindE_eq_Inl split: if_splits)
    then show ?thesis by (rule commit_failure [OF ok i Some over(1)])
  qed
qed

lemma origin_failure:
  assumes ok: "db_ok env sv (m, db)" and app: "applyGenerationOrigin env sv cm db = Inl f"
  shows "expected_failure sv cmd f"
proof -
  obtain g where g: "pd_generation db = Some g" using generation_present [OF ok] by blast
  show ?thesis
    using app g
    by (auto simp: applyGenerationOrigin_def Let_def readPartitionWriteOrigin_def generationRowOf_def
        recordPartitionWriteOrigin_def bindE_eq_Inl split: if_splits option.splits)
qed

lemma acknowledgement_total:
  assumes "ledger_ok l"
  shows "applyCdcAcknowledgementCommand ns h partitionId c i trm l \<noteq> Inl f"
proof (cases "k_partitionId c = Text partitionId \<and> (\<exists>groups os ds. acknowledgedGroupsOf ns c = Some groups \<and>
    acknowledgementJudgementOf h l groups = Inr (os, ds))")
  case False
  then show ?thesis
    by (auto simp: applyCdcAcknowledgementCommand_def refuseAcknowledgement_def Let_def
        split: option.splits sum.splits if_splits)
next
  case True
  then obtain groups os ds where c: "k_partitionId c = Text partitionId"
    "acknowledgedGroupsOf ns c = Some groups" "acknowledgementJudgementOf h l groups = Inr (os, ds)" by blast
  show ?thesis by (rule accepted_acknowledgement [OF assms c, of i trm]) simp
qed

lemma witness_failure:
  "buildCommittedWriteIdentity rp e ts pb i trm = Inl f \<Longrightarrow> f = DurableCommitWitnessInvalid"
  by (auto simp: buildCommittedWriteIdentity_def buildDurableCommitWitness_def Let_def bindE_eq_Inl
      split: if_splits option.splits)

lemma statement_cdc_total:
  assumes ok: "db_ok env sv (m, db)" and i: "m < i" and fresh: "jm_get (pd_outcomes db) (entry_key x) = None"
  shows "recordCommittedStatementCdc build s data entry snapshot i trm (entry_key x) (pd_ledger db) \<noteq> Inl e"
proof -
  let ?l = "pd_ledger db"
  note inv = db_okD [OF ok]
  have "\<exists>l'. insert_all (ensureCdcObligationLedger ?l) [owed_event (entry_key x) i trm 0 eid json] = Inr l'" for eid json
  proof (rule insert_all_total)
    have "o_eventKey r \<noteq> entry_key x" if "r \<in> set (table_rows ?l)" for r
      using inv(4) that fresh unfolding events_ok_def by (metis option.distinct(1))
    then have "entry_key x \<notin> o_eventKey ` set (table_rows ?l)" by (metis imageE)
    then show "o_eventKey ` set [owed_event (entry_key x) i trm 0 eid json] \<inter>
        o_eventKey ` set (table_rows (ensureCdcObligationLedger ?l)) = {}"
      by (auto simp: owed_event_def)
    have "o_logIndex r \<noteq> i" if "r \<in> set (table_rows ?l)" for r
      using inv(5) that i by (auto simp: ledger_state_ok_def)
    then show "position ` set [owed_event (entry_key x) i trm 0 eid json] \<inter>
        position ` set (table_rows (ensureCdcObligationLedger ?l)) = {}"
      by (auto simp: owed_event_def position_def)
  qed simp_all
  then have "\<exists>l'. insert_all (ensureCdcObligationLedger ?l) (owed_of [Owed (owed_event (entry_key x) i trm 0 eid json)]) = Inr l'"
    for eid json by simp
  then show ?thesis
    by (auto simp: recordCommittedStatementCdc_def recordCommittedOperationCdc_def bindE_eq_Inl
        simp del: owed_of.simps insert_all.simps split: option.splits) (metis sum.distinct(1))+
qed

lemma statement_failure:
  assumes ok: "db_ok env sv (m, db)" and i: "m < i" and app: "applyCommittedStatement env sv q i trm db = Inl f"
  shows "expected_failure sv (SqlCommand q) f"
proof -
  let ?key = "entry_key (to_text (q_entryId q))"
  obtain g where g: "pd_generation db = Some g" "readPartitionWriteOrigin db = Inr (g_origin g)"
    using generation_present [OF ok] by blast
  note app1 = app [unfolded applyCommittedStatement_def g(2) bindE_Inr Let_def, folded entry_key_def]
  show ?thesis
  proof (cases "isTransactionSchemaWriteRefused (en_uc env) (en_schema env (pd_data db)) (sv_tableName sv) (g_origin g \<noteq> None)")
    case True
    then show ?thesis using app1 by (auto simp: isTransactionSchemaWriteRefused_def)
  next
    case False
    note app2 = app1 [simplified False if_False]
    show ?thesis
    proof (cases "buildCommittedWriteIdentity (sv_replica sv) (q_entryId q) (q_timestamp q) (q_proposedBy q) i trm")
      case (Inl e)
      then show ?thesis using app2 witness_failure [OF Inl] by simp
    next
      case (Inr ident)
      note app3 = app2 [unfolded Inr bindE_Inr]
      have fresh: "jm_get (pd_outcomes db) ?key = None" and free: "\<not> isPartitionReserved db"
        and adm: "admitCdcOwedWork (pd_ledger db)
          (statement_slots (sv_cdc sv) (q_type q = MIGRATION_ALTER_TABLE) (q_snapshot q)) = CDC_ADMITTED"
        using app3
        by (auto simp: readCommittedStatementOutcome_def settleRecordedCommittedStatement_def
            settleReservedCommittedStatement_def settleCdcOwedRefusal_def Let_def
            split: option.splits if_splits cdc_admission.splits)
      have rec: "recordCommittedStatementOutcome (pd_outcomes db) ?key w = Inr (jm_set ?key w (pd_outcomes db))" for w
        using fresh by (simp add: record_Inr)
      note app4 = app3 [unfolded readCommittedStatementOutcome_def fresh option.case, simplified free if_False,
          unfolded adm cdc_admission.case rec bindE_Inr]
      show ?thesis
      proof (cases "en_run env (pd_data db) (sql_statement q)")
        case (Inl e)
        then show ?thesis using app4
          by (auto simp: settleFailedCommittedStatement_def rec statementEnvironmentFailure_def split: if_splits)
      next
        case (Inr res)
        obtain info data' where res: "res = (info, data')" by (cases res)
        show ?thesis using app4 Inr statement_cdc_total [OF ok i fresh, where build = "en_build env"] g(1) unfolding res
          by (auto simp: bindE_eq_Inl ledger_result_def advancePartitionWriteGeneration_def split: sum.splits)
      qed
    qed
  qed
qed

lemma settlement_failure:
  assumes ok: "db_ok env sv (m, db)" and app: "applyCoordinatorSettlement env sv s i trm db = Inl f"
  shows "f = SettlementFailure"
proof -
  obtain g where g: "pd_generation db = Some g" using generation_present [OF ok] by blast
  show ?thesis using app g
    by (auto simp: applyCoordinatorSettlement_def Let_def readCommittedStatementOutcome_def bindE_eq_Inl
        recordCommittedStatementOutcome_def advancePartitionWriteGeneration_def settleReservedCommittedStatement_def
        split: if_splits option.splits prod.splits)
qed


subsection \<open>An example run\<close>

text \<open>
  A partition of the node table: its origin is recorded at index 1, a transaction with one statement is
  prepared at index 2 and committed at index 3. A statement adds one to the data.
\<close>

definition example_env :: "nat env" where
  "example_env = \<lparr>en_run = \<lambda>n st. Inr (\<lparr>changes = 1, lastInsertRowid = None\<rparr>, n + 1), en_render = \<lambda>_ _. [],
     en_schema = \<lambda>_. None, en_putSchema = \<lambda>n _. n, en_transactions = \<lambda>_. [], en_putTransactions = \<lambda>n _. n,
     en_uc = id, en_hash = id, en_ns = \<lambda>_. []\<rparr>"

definition example_service :: service where
  "example_service = \<lparr>sv_tableName = Some (js ''nodes''), sv_isShutdown = False, sv_subscribers = 0, sv_isLeader = True,
     sv_replica = \<lparr>rp_partitionId = js ''p1'', rp_nodeId = js ''n'', rp_replicaId = js ''r''\<rparr>,
     sv_envelope = the (s_executionEnvelope example_stamp)\<rparr>"

definition example_operations :: jsstring where
  "example_operations = js ''[{\"entryId\":\"e1\",\"sql\":\"INSERT INTO nodes VALUES (1)\",\"params\":[]}]''"

definition example_base :: jsstring where
  "example_base = validationTextOf (\<lambda>_. []) id 0 (js ''p1'') 1"

definition example_prepare :: pcommand where
  "example_prepare = buildPrepareCommand id example_identity example_operations example_base example_stamp"

definition example_digest_text :: jsstring where
  "example_digest_text = preparedDigestOf id (Text example_operations) (Text example_base)"

definition example_commit_record :: decision_record where
  "example_commit_record =
     (let es = [(js ''t:p1'', Some example_digest_text)]; text = stringify (\<lambda>_. []) (decision_json (js ''t'') COMMIT es)
      in \<lparr>d_transactionId = js ''t'', d_decision = COMMIT, d_participants = es,
          d_decisionText = text, d_decisionDigest = text\<rparr>)"

definition example_commit :: pcommand where
  "example_commit = buildDecisionCommand example_identity (Text COMMIT) (Text example_digest_text)
     (Text (d_decisionText example_commit_record)) (Text (d_decisionDigest example_commit_record)) example_stamp"

definition example_opened :: "nat pdb" where
  "example_opened = (created 7)\<lparr>pd_generation := Some \<lparr>g_generation = 0, g_origin = Some (1, 1)\<rparr>\<rparr>"

definition example_oper :: operation where
  "example_oper = hd (the (operationsOf (Text example_operations)))"

lemma example_operations_read: "operationsOf (Text example_operations) = Some [example_oper]"
proof -
  have "(case operationsOf (Text example_operations) of Some [oper] \<Rightarrow> True | _ \<Rightarrow> False) = True" by code_simp
  then show ?thesis by (auto simp: example_oper_def split: option.splits list.splits)
qed

lemma example_user_table: "\<not> isCoordinatorTable (sv_tableName example_service)"
  by code_simp

lemma example_origin_step:
  "entry_step example_env example_service (0, created 7) (1, example_opened)"
proof -
  have "\<exists>effs. applyCommittedEntry example_env example_service
      (ParticipantCommand (buildGenerationOriginCommand (js ''p1'') example_stamp)) 1 1 (created 7) =
      Inr (APPLIED, effs, example_opened)"
    using example_user_table
    by (simp add: applyCommittedEntry_def lift_applied_def applyCommittedTransactionCommand_def applyParticipantCommand_def
        applyGenerationOrigin_def readPartitionWriteOrigin_def generationRowOf_def recordPartitionWriteOrigin_def
        example_opened_def Let_def sv_partitionId_def del: js_simps)
       (simp add: example_service_def)
  then show ?thesis by (auto intro: applied simp: max_safe_def)
qed

lemma example_opened_ok: "db_ok example_env example_service (1, example_opened)"
  using log.step_inv [OF created_ok example_origin_step] .

lemma example_opened_simps [simp]:
  "pd_rows example_opened = []" "pd_data example_opened = 7"
  "pd_ledger example_opened = \<lparr>l_rows = None, l_progress = None\<rparr>"
  by (simp_all add: example_opened_def)

lemma example_record_built':
  "buildDecisionRecord (\<lambda>_. []) id (js ''t'') COMMIT (Some [(js ''t:p1'', Some example_digest_text)]) = Some example_commit_record"
proof -
  have "js ''t'' \<noteq> []" "example_digest_text \<noteq> []" by (simp_all add: example_digest_text_def preparedDigestOf_def)
  moreover from this have "list_all (entry_ok (js ''t'' @ id_separator) COMMIT) [(js ''t:p1'', Some example_digest_text)]"
    by (simp add: entry_ok_def is_prefix_def id_separator_def)
  ultimately show ?thesis
    by (subst buildDecisionRecord_eq [where es = "[(js ''t:p1'', Some example_digest_text)]"])
       (simp_all add: example_commit_record_def Let_def js_sort_def del: js_simps)
qed

lemma example_facts:
  "identityRefusalOf (identity_carrier example_identity) (sv_partitionId example_service) = None"
  "i_transactionId example_identity = Text (js ''t'')" "i_participantId example_identity = Text (js ''t:p1'')"
  "sv_partitionId example_service \<noteq> []" "isExecutionEnvelope (s_executionEnvelope example_stamp)"
  "validationTextHereOf example_env example_service example_opened = Inr (Some example_base)"
  "en_hash example_env = id" "en_ns example_env = (\<lambda>_. [])"
  "(js ''t:p1'', Some example_digest_text) \<in> set (d_participants example_commit_record)"
  "d_decisionDigest example_commit_record \<noteq> []" "d_transactionId example_commit_record = js ''t''"
  "d_decision example_commit_record = COMMIT"
proof -
  have p: "sv_partitionId example_service = js ''p1''"
    by (simp add: example_service_def sv_partitionId_def del: js_simps)
  show "identityRefusalOf (identity_carrier example_identity) (sv_partitionId example_service) = None"
    "sv_partitionId example_service \<noteq> []" "isExecutionEnvelope (s_executionEnvelope example_stamp)"
    unfolding p by (rule example_identity_ok)+
  show "i_transactionId example_identity = Text (js ''t'')" "i_participantId example_identity = Text (js ''t:p1'')"
    "en_hash example_env = id" "en_ns example_env = (\<lambda>_. [])"
    by (simp_all add: example_identity_def example_env_def del: js_simps)
  show "validationTextHereOf example_env example_service example_opened = Inr (Some example_base)"
    by (simp add: validationTextHereOf_def readPartitionWriteOrigin_def readPartitionWriteGeneration_def generationRowOf_def
        example_opened_def example_env_def p example_base_def del: js_simps)
  show "(js ''t:p1'', Some example_digest_text) \<in> set (d_participants example_commit_record)"
    "d_decisionDigest example_commit_record \<noteq> []" "d_transactionId example_commit_record = js ''t''"
    "d_decision example_commit_record = COMMIT"
    using stringify_decision_not_Nil by (simp_all add: example_commit_record_def Let_def del: js_simps)
qed

lemma example_premises:
  "run_all example_env (pd_data example_opened) [example_oper] = Inr 8"
  "partitionOwesCdc (sv_cdc example_service) \<longrightarrow>
      length (owed_rows (pd_ledger example_opened)) + length [example_oper] \<le> OWED_MAX_EVENTS"
  "\<not> isPartitionReserved example_opened" "\<forall>q \<in> set (pd_rows example_opened). r_transactionId q \<noteq> js ''t''"
  "buildDecisionRecord (en_ns example_env) (en_hash example_env) (js ''t'') COMMIT
      (Some [(js ''t:p1'', Some example_digest_text)]) = Some example_commit_record"
  "(js ''t:p1'', Some (preparedDigestOf (en_hash example_env) (Text example_operations) (Text example_base)))
      \<in> set (d_participants example_commit_record)"
proof -
  show "run_all example_env (pd_data example_opened) [example_oper] = Inr 8"
    by (simp add: example_env_def runCarriedOperation_def)
  show "partitionOwesCdc (sv_cdc example_service) \<longrightarrow>
      length (owed_rows (pd_ledger example_opened)) + length [example_oper] \<le> OWED_MAX_EVENTS"
    by (simp add: owed_rows_def table_rows_def OWED_MAX_EVENTS_def)
  show "\<not> isPartitionReserved example_opened" "\<forall>q \<in> set (pd_rows example_opened). r_transactionId q \<noteq> js ''t''"
    by (simp_all add: isPartitionReserved_def)
  show "buildDecisionRecord (en_ns example_env) (en_hash example_env) (js ''t'') COMMIT
      (Some [(js ''t:p1'', Some example_digest_text)]) = Some example_commit_record"
    "(js ''t:p1'', Some (preparedDigestOf (en_hash example_env) (Text example_operations) (Text example_base)))
      \<in> set (d_participants example_commit_record)"
    using example_record_built' example_facts(7-9) by (simp_all add: example_digest_text_def)
qed


definition example_row_prepared :: ptx_row where
  "example_row_prepared =
     preparedRowOf \<lparr>cm_command = example_prepare, cm_index = 2, cm_term = 1\<rparr> PREPARED None None"

definition example_reserved :: "nat pdb" where
  "example_reserved = example_opened\<lparr>pd_rows := [example_row_prepared]\<rparr>"

lemma example_prepare_applied:
  "\<exists>effs. applyCommittedEntry example_env example_service (ParticipantCommand example_prepare) 2 1 example_opened =
     Inr (APPLIED, effs, example_reserved)"
proof -
  have "\<exists>effs. applyParticipantPrepare example_env example_service
      \<lparr>cm_command = example_prepare, cm_index = 2, cm_term = 1\<rparr> example_opened = Inr (APPLIED, effs, example_reserved)"
    using prepare_applies [OF example_opened_ok _ _ example_facts(1,2) example_premises(4,3) example_facts(6)
        example_operations_read example_premises(1,2), of 2 example_stamp 1]
    by (simp add: example_prepare_def example_reserved_def example_row_prepared_def example_facts(7) max_safe_def)
  then show ?thesis
    by (auto simp: applyCommittedEntry_def applyCommittedTransactionCommand_def applyParticipantCommand_def lift_applied_def)
       (simp add: example_prepare_def)
qed

lemma example_commit_applied:
  "\<exists>effs db row. applyCommittedEntry example_env example_service (ParticipantCommand example_commit) 3 1 example_reserved =
       Inr (APPLIED, effs, db) \<and> pd_data db = 8 \<and> row \<in> set (pd_rows db) \<and> r_state row = COMMITTED \<and>
     r_participantId row = js ''t:p1'' \<and> op_count row = 1"
proof -
  obtain effs db1 effs' db row where two:
      "applyCommittedEntry example_env example_service (ParticipantCommand example_prepare) 2 1 example_opened =
         Inr (APPLIED, effs, db1)"
      "applyCommittedEntry example_env example_service (ParticipantCommand example_commit) 3 1 db1 =
         Inr (APPLIED, effs', db)" "pd_data db = 8" "participant_row db example_commit = Some row" "r_state row = COMMITTED"
    using two_phase [OF example_opened_ok _ _ _ example_user_table example_premises(3) example_facts(1-5)
        example_premises(4) example_facts(6) example_operations_read example_premises(1,2,5,6) example_facts(10-12), of 2 3 1 1]
    by (auto simp: example_prepare_def example_commit_def example_digest_text_def example_facts(7) max_safe_def)
  have db1: "db1 = example_reserved" using two(1) example_prepare_applied by auto
  note step = applyCommittedEntry_step [OF two(2) [unfolded db1]]
  have ok: "db_ok example_env example_service (2, example_reserved)"
    by (rule db_ok_step [OF example_opened_ok applyCommittedEntry_step [OF two(1) [unfolded db1]]]) (simp_all add: max_safe_def)
  have row: "row \<in> set (pd_rows db)" "r_participantId row = js ''t:p1''"
    using two(4) example_facts(3) by (auto elim!: participant_row_Some simp: has_key_def example_commit_def)
  obtain r' where r': "r' \<in> set (pd_rows db)" "row_moves example_row_prepared r'"
    using rows_move [OF step, of example_row_prepared] by (auto simp: example_reserved_def)
  have "r_participantId example_row_prepared = js ''t:p1''" "op_count example_row_prepared = 1"
    using example_operations_read example_facts(3)
    by (simp_all add: example_row_prepared_def example_prepare_def op_count_def row_operations_def textOrNull_def)
  then have "r_participantId r' = js ''t:p1''" "op_count r' = 1" using r'(2) by (auto simp: row_moves_def)
  moreover have "r' = row"
    using row_of_participant [OF rows_step [OF step db_okD(1) [OF ok]] r'(1) row(1)] row(2) calculation(1) by simp
  ultimately show ?thesis using two row unfolding db1 by blast
qed

lemma example_reserved_step: "entry_step example_env example_service (1, example_opened) (2, example_reserved)"
  using example_prepare_applied by (auto intro: applied simp: max_safe_def)

lemma example_reserved_ok: "db_ok example_env example_service (2, example_reserved)"
  by (rule log.step_inv [OF example_opened_ok example_reserved_step])

text \<open>The origin is recorded once; a second command for it changes nothing.\<close>

lemma example_origin_replayed:
  assumes "pd_generation db = pd_generation example_opened" "m < i" "i < max_safe"
  shows "entry_step example_env example_service (m, db) (i, db)"
proof -
  have "\<exists>effs. applyCommittedEntry example_env example_service
      (ParticipantCommand (buildGenerationOriginCommand (js ''p1'') example_stamp)) i 1 db = Inr (REPLAYED, effs, db)"
    using example_user_table assms(1)
    by (simp add: applyCommittedEntry_def lift_applied_def applyCommittedTransactionCommand_def applyParticipantCommand_def
        applyGenerationOrigin_def readPartitionWriteOrigin_def generationRowOf_def example_opened_def Let_def
        sv_partitionId_def del: js_simps)
       (simp add: example_service_def)
  then show ?thesis using assms(2,3) by (auto intro: applied)
qed

lemma example_reserved_simps [simp]:
  "pd_rows example_reserved = [example_row_prepared]" "pd_generation example_reserved = pd_generation example_opened"
  "pd_data example_reserved = 7" "r_state example_row_prepared = PREPARED"
  by (simp_all add: example_reserved_def example_row_prepared_def)

lemma example_reserved_run:
  "(entry_step example_env example_service)\<^sup>*\<^sup>* (2, example_reserved) (3, example_reserved)"
  using example_origin_replayed [of example_reserved 2 3] by (simp add: max_safe_def)

lemma example_committed:
  obtains db row where "(entry_step example_env example_service)\<^sup>*\<^sup>* (0, created 7) (3, db)"
    "(entry_step example_env example_service)\<^sup>*\<^sup>* (2, example_reserved) (3, db)" "pd_data db = 8"
    "row \<in> set (pd_rows db)" "r_state row = COMMITTED" "r_participantId row = js ''t:p1''" "op_count row = 1"
proof -
  obtain effs db row where db: "applyCommittedEntry example_env example_service (ParticipantCommand example_commit) 3 1
       example_reserved = Inr (APPLIED, effs, db)" "pd_data db = 8" "row \<in> set (pd_rows db)" "r_state row = COMMITTED"
       "r_participantId row = js ''t:p1''" "op_count row = 1"
    using example_commit_applied by blast
  have "entry_step example_env example_service (2, example_reserved) (3, db)"
    by (rule applied [OF _ _ db(1)]) (simp_all add: max_safe_def)
  with example_origin_step example_reserved_step that db show thesis
    by (meson converse_rtranclp_into_rtranclp r_into_rtranclp)
qed


theorem applyCommittedEntry_refines_witness:
  "db_step example_env example_service 2 example_opened example_reserved"
proof -
  obtain effs where "applyCommittedEntry example_env example_service (ParticipantCommand example_prepare) 2 1 example_opened =
     Inr (APPLIED, effs, example_reserved)" using example_prepare_applied ..
  from applyCommittedEntry_refines [OF this] show ?thesis ..
qed

theorem store_invariant_witness:
  "\<exists>db. pd_data db = 8 \<and> db_ok example_env example_service (3, db) \<and> length (readPreparedParticipantIds db) \<le> 1"
proof (rule example_committed)
  fix db assume "(entry_step example_env example_service)\<^sup>*\<^sup>* (0, created 7) (3, db)" and db: "pd_data db = 8"
  from store_invariant [OF this(1)] db show ?thesis by (intro exI [of _ db]) simp
qed

theorem terminal_rows_are_final_witness:
  "\<exists>db r'. (entry_step example_env example_service)\<^sup>*\<^sup>* (2, example_reserved) (3, db) \<and> r' \<in> set (pd_rows db) \<and>
     row_moves example_row_prepared r'"
proof (rule example_committed)
  fix db assume run: "(entry_step example_env example_service)\<^sup>*\<^sup>* (2, example_reserved) (3, db)"
  from terminal_rows_are_final [OF this example_reserved_ok, of example_row_prepared]
  obtain r' where "r' \<in> set (pd_rows db)" "row_moves example_row_prepared r'" by auto
  with run show ?thesis by blast
qed

theorem operations_take_effect_together_witness:
  "\<exists>(db :: nat pdb) w. pd_data db = 8 \<and> readCommittedStatementOutcome (pd_outcomes db)
     (operationOutcomeKeyOf (Text (js ''t:p1'')) 0) = Some w \<and> w_outcome w = APPLIED"
proof (rule example_committed)
  fix db row assume run: "(entry_step example_env example_service)\<^sup>*\<^sup>* (0, created 7) (3, db)" "row \<in> set (pd_rows db)"
    and row: "r_state row = COMMITTED" "r_participantId row = js ''t:p1''" "op_count row = 1" and db: "pd_data db = 8"
  from operations_take_effect_together [OF run] row db show ?thesis by (auto simp del: js_simps)
qed

theorem owed_events_bounded_witness:
  "\<exists>db :: nat pdb. pd_data db = 8 \<and> n_owed (countCdcObligations (pd_ledger db)) \<le> 4096"
proof (rule example_committed)
  fix db assume run: "(entry_step example_env example_service)\<^sup>*\<^sup>* (0, created 7) (3, db)" and db: "pd_data db = 8"
  from owed_events_bounded [OF run] db show ?thesis by (auto simp: OWED_MAX_EVENTS_def)
qed

theorem prepared_row_isolates_witness:
  "(entry_step example_env example_service)\<^sup>*\<^sup>* (2, example_reserved) (3, example_reserved) \<and>
   isPartitionReserved example_reserved \<and> pd_data example_reserved = 7"
  using prepared_row_isolates [OF example_reserved_run example_reserved_ok example_user_table, of example_row_prepared]
    example_reserved_run by (simp add: isPartitionReserved_def)

theorem validation_text_pins_data_witness:
  "validationTextHereOf example_env example_service example_reserved =
     validationTextHereOf example_env example_service example_opened \<and>
   pd_data example_reserved = pd_data example_opened"
proof -
  have run: "(entry_step example_env example_service)\<^sup>*\<^sup>* (1, example_opened) (2, example_reserved)"
    using example_reserved_step by blast
  have v: "validationTextHereOf example_env example_service example_reserved = Inr (Some example_base)"
    using validationTextHereOf_cong [of example_reserved example_opened] example_facts(6) by simp
  from validation_text_pins_data [OF run example_opened_ok _ example_user_table _ example_facts(6) v] v example_facts(6)
  show ?thesis by (simp add: max_safe_def example_facts(7))
qed

definition example_recorded :: "nat pdb" where
  "example_recorded = example_opened\<lparr>pd_outcomes := [(entry_key (js ''e''),
     outcome_of APPLIED 1 1 None (Some \<lparr>changes = 1, lastInsertRowid = None\<rparr>) None)]\<rparr>"

lemma example_recorded_ok: "db_ok example_env example_service (1, example_recorded)"
  using db_okD [OF example_opened_ok]
  by (simp add: db_ok_def example_recorded_def outcomes_ok_def capacity_ok_def prepared_ok_def events_ok_def
      table_rows_def entry_key_def [symmetric])

theorem statement_executed_once_witness:
  "readCommittedStatementOutcome (pd_outcomes example_recorded) (entry_key (js ''e'')) \<noteq> None"
proof -
  have "(entry_step example_env example_service)\<^sup>*\<^sup>* (1, example_recorded) (2, example_recorded)"
    using example_origin_replayed [of example_recorded 1 2] by (simp add: max_safe_def example_recorded_def)
  from statement_executed_once [OF this example_recorded_ok, of "js ''e''"] show ?thesis
    by (simp add: example_recorded_def readCommittedStatementOutcome_def)
qed


end
