(* ===== verification/Divergences.thy ===== *)
theory Divergences
  imports EntryProperties
begin

text \<open>
  Inputs on which the code does not do what its comments say, each as a closed theorem over the model.
\<close>

text \<open>
  A \<open>DECISION\<close> that carries no decision but a canonical \<open>COMMIT\<close> record is in the pinned form, is admitted,
  and rolls the prepared row back: an absent decision is not compared with the record
  (\<open>canonicalDecisionRecord\<close>), and everything but \<open>COMMIT\<close> is a rollback (\<open>decideOverPrepared\<close>).
\<close>

definition undecided_commit :: pcommand where
  "undecided_commit = example_commit\<lparr>c_decision := Undef\<rparr>"

lemma undecided_fields [simp]:
  "c_type undecided_commit = PARTICIPANT_DECISION" "c_decision undecided_commit = Undef"
  "c_transactionId undecided_commit = Text (js ''t'')" "c_participantId undecided_commit = Text (js ''t:p1'')"
  "c_commitMode undecided_commit = i_commitMode example_identity"
  "c_transactionEpoch undecided_commit = i_transactionEpoch example_identity"
  "c_preparedDigest undecided_commit = Text example_digest_text"
  "c_decisionText undecided_commit = Text (d_decisionText example_commit_record)"
  "c_decisionDigest undecided_commit = Text (d_decisionDigest example_commit_record)"
  "c_executionEnvelope undecided_commit = s_executionEnvelope example_stamp"
  "c_entryId undecided_commit = c_entryId example_commit" "c_operationsText undecided_commit = Undef"
  "hasOperations undecided_commit = False"
  using example_facts(2,3) by (simp_all add: undecided_commit_def example_commit_def)

lemma undecided_record:
  "canonicalDecisionRecord (\<lambda>_. []) id (binding_of undecided_commit) = Some example_commit_record"
proof -
  note D = canonicalDecisionRecordD [OF example_premises(5) [unfolded buildDecisionRecord_def option.case Let_def
        example_facts(7,8)]]
  show ?thesis
    by (rule canonicalDecisionRecordI [OF D(1,2)]) (use D(5) in \<open>simp_all add: binding_of_def example_facts(11)\<close>)
qed

lemma undecided_bound: "decisionBindingRefusalOf (\<lambda>_. []) id (binding_of undecided_commit) = None"
proof -
  have "d_participants example_commit_record = [(js ''t:p1'', Some example_digest_text)]"
    by (simp add: example_commit_record_def Let_def del: js_simps)
  moreover have "example_digest_text \<noteq> []" by (simp add: example_digest_text_def preparedDigestOf_def)
  ultimately show ?thesis
    using undecided_record example_facts(10)
    by (simp add: decisionBindingRefusalOf_def namesPreparedContent_def binding_of_def Let_def del: js_simps)
qed

lemma undecided_pinned: "isPinnedParticipantCommand (\<lambda>_. []) id undecided_commit"
proof -
  have "carriesPinnedIdentity undecided_commit"
    by (simp add: carriesPinnedIdentity_def Let_def example_identity_def is_prefix_def id_separator_def isSafeInteger_def
        is_safe_int_def max_safe_def)
  then show ?thesis
    using undecided_bound example_facts(5)
    by (simp add: isPinnedParticipantCommand_def isPinnedDecision_def del: js_simps)
       (simp add: example_commit_def example_facts(3) del: js_simps)
qed

theorem absent_decision_rolls_back:
  "isPinnedParticipantCommand (en_ns example_env) (en_hash example_env) undecided_commit \<and>
   canonicalDecisionRecord (en_ns example_env) (en_hash example_env) (binding_of undecided_commit) = Some example_commit_record \<and>
   d_decision example_commit_record = COMMIT \<and>
   (\<exists>effs db row. applyCommittedEntry example_env example_service (ParticipantCommand undecided_commit) 3 1 example_reserved =
      Inr (APPLIED, effs, db) \<and> participant_row db undecided_commit = Some row \<and> r_state row = ROLLED_BACK)"
proof -
  let ?cm = "\<lparr>cm_command = undecided_commit, cm_index = 3, cm_term = 1\<rparr>"
  have prep: "c_transactionId example_prepare = Text (js ''t'')" "c_participantId example_prepare = Text (js ''t:p1'')"
      "c_preparedDigest example_prepare = Text example_digest_text"
      "c_commitMode example_prepare = i_commitMode example_identity"
      "c_transactionEpoch example_prepare = i_transactionEpoch example_identity"
    using example_facts(2,3) by (simp_all add: example_prepare_def example_digest_text_def)
  have row: "participant_row example_reserved undecided_commit = Some example_row_prepared"
    by (simp add: participant_row_def readParticipantTransactionRow_def has_key_def example_row_prepared_def prep)
  have fields: "Text (r_commitMode example_row_prepared) = c_commitMode undecided_commit"
      "r_transactionEpoch example_row_prepared = command_epoch undecided_commit"
      "r_preparedDigest example_row_prepared = Some example_digest_text"
    by (simp_all add: example_row_prepared_def preparedRowOf_def Let_def prep command_epoch_def textOrNull_def)
       (simp add: example_identity_def del: js_simps)
  have "decisionMatchesPreparedRow undecided_commit (r_preparedDigest example_row_prepared)"
    by (simp add: decisionMatchesPreparedRow_def fields(3))
  with over_prepared_total [OF example_reserved_ok, of ?cm example_row_prepared] row example_user_table
  obtain effs db row' where over: "decideOverPrepared example_env example_service ?cm example_reserved example_row_prepared =
      Inr (APPLIED, effs, db)" "participant_row db undecided_commit = Some row'" "r_state row' = ROLLED_BACK"
    by auto
  have "carrier_of undecided_commit = identity_carrier example_identity"
    using example_facts(2,3) by (simp add: carrier_of_def identity_carrier_def)
  then have "applyCommittedEntry example_env example_service (ParticipantCommand undecided_commit) 3 1 example_reserved =
      Inr (APPLIED, WitnessHlc # map ParticipantEffect
        (noteExecutionEnvelope example_service undecided_commit @ effs @ [EntryCommitted]), db)"
    using over(1) row fields(1,2) undecided_bound example_facts(1,7,8)
    by (simp add: applyCommittedEntry_def applyCommittedTransactionCommand_def applyParticipantCommand_def
        applyParticipantDecision_def lift_applied_def del: undecided_fields(5,6))
  then show ?thesis using over(2,3) undecided_pinned undecided_record example_facts(7,8,12) by auto
qed

text \<open>
  An entry identifier of white space only passes admission and the gate; the application then builds the
  durable commit witness, which trims it and throws, on the proposing replica only. The other replicas
  apply the statement.
\<close>

definition blank_command :: sql_command where
  "blank_command = \<lparr>q_type = INSERT, q_entryId = Text [32], q_sql = Text (js ''INSERT INTO nodes VALUES (1)''),
     q_params = [], q_sessionId = Undef, q_timestamp = Undef, q_proposedBy = Text (js ''r''), q_proposedAt = None,
     q_snapshot = True\<rparr>"

definition other_replica :: service where
  "other_replica = example_service\<lparr>sv_replica := \<lparr>rp_partitionId = js ''p1'', rp_nodeId = js ''n2'', rp_replicaId = js ''r2''\<rparr>\<rparr>"

lemma blank_identity:
  "buildCommittedWriteIdentity (sv_replica example_service) (Text [32]) Undef (Text (js ''r'')) 1 1 = Inl DurableCommitWitnessInvalid"
  "\<exists>ident. buildCommittedWriteIdentity (sv_replica other_replica) (Text [32]) Undef (Text (js ''r'')) 1 1 = Inr ident"
proof -
  have blank: "normalizeCommitWitnessString (Text [32]) = []" by code_simp
  show "buildCommittedWriteIdentity (sv_replica example_service) (Text [32]) Undef (Text (js ''r'')) 1 1 =
      Inl DurableCommitWitnessInvalid"
    by (simp add: buildCommittedWriteIdentity_def Let_def buildDurableCommitWitness_def example_service_def blank)
  show "\<exists>ident. buildCommittedWriteIdentity (sv_replica other_replica) (Text [32]) Undef (Text (js ''r'')) 1 1 = Inr ident"
    by (simp add: buildCommittedWriteIdentity_def Let_def other_replica_def)
qed

theorem blank_entry_id_splits_replicas:
  "admitCommittedCommand example_env (SqlCommand blank_command) WRITE_PATH = Admitted \<and>
   applyCommittedEntry example_env example_service (SqlCommand blank_command) 1 1 (created 7) =
     Inl DurableCommitWitnessInvalid \<and>
   (\<exists>effs db. applyCommittedEntry example_env other_replica (SqlCommand blank_command) 1 1 (created 7) =
     Inr (APPLIED, effs, db) \<and> pd_data db = 8)"
proof -
  have q: "q_entryId blank_command = Text [32]" "isNonEmptyString (q_sql blank_command)" "q_timestamp blank_command = Undef"
      "q_proposedBy blank_command = Text (js ''r'')" "q_snapshot blank_command"
    by (simp_all add: blank_command_def)
  have origin: "readPartitionWriteOrigin (created 7) = Inr None"
    by (simp add: readPartitionWriteOrigin_def generationRowOf_def)
  have open_table: "\<not> isTransactionSchemaWriteRefused uc s t False" for uc s t
    by (simp add: isTransactionSchemaWriteRefused_def)
  obtain ident where ident: "buildCommittedWriteIdentity (sv_replica other_replica) (Text [32]) Undef (Text (js ''r'')) 1 1 = Inr ident"
    using blank_identity(2) ..
  have "admitCommittedCommand example_env (SqlCommand blank_command) WRITE_PATH = Admitted"
    using q by (simp add: admitCommittedCommand_def isInvalidEntryId_def sqlCommandRefusal_def)
  moreover have "applyCommittedEntry example_env example_service (SqlCommand blank_command) 1 1 (created 7) =
      Inl DurableCommitWitnessInvalid"
    using q by (simp add: applyCommittedEntry_def isCommittedStatementKeyed_def applyCommittedStatement_def origin open_table
        blank_identity(1) del: js_simps)
  moreover have "\<exists>effs db. applyCommittedEntry example_env other_replica (SqlCommand blank_command) 1 1 (created 7) =
      Inr (APPLIED, effs, db) \<and> pd_data db = 8"
    using q by (simp add: applyCommittedEntry_def isCommittedStatementKeyed_def applyCommittedStatement_def origin open_table
        ident readCommittedStatementOutcome_def isPartitionReserved_def admitCdcOwedWork_def statement_slots_def
        recordCommittedStatementOutcome_def recordCommittedStatementCdc_def ledger_result_def
        advancePartitionWriteGeneration_def Let_def example_env_def sql_statement_def generationRowOf_def del: js_simps)
  ultimately show ?thesis by blast
qed

text \<open>
  Which applied writes have no event, or have one without a change: a statement headed by \<open>WITH\<close> that
  changed rows becomes no event, and an \<open>INSERT\<close> that changed none becomes one although no-op writes are
  suppressed.
\<close>

theorem generator_gaps:
  "buildEvent id render data \<lparr>e_type = QUERY, e_sql = js ''WITH x AS (SELECT 1) INSERT INTO nodes SELECT * FROM x'',
      e_params = [], e_entryId = Undef, e_sessionId = Undef, e_timestamp = Undef, e_proposedBy = Undef,
      e_proposedAt = None, e_changes = 1\<rparr> = None \<and>
   buildEvent id render data \<lparr>e_type = INSERT, e_sql = js ''INSERT OR IGNORE INTO nodes VALUES (1)'',
      e_params = [], e_entryId = Undef, e_sessionId = Undef, e_timestamp = Undef, e_proposedBy = Undef,
      e_proposedAt = None, e_changes = 0\<rparr> \<noteq> None"
proof -
  have "resolveEventEnvelope id \<lparr>e_type = QUERY, e_sql = js ''WITH x AS (SELECT 1) INSERT INTO nodes SELECT * FROM x'',
      e_params = [], e_entryId = Undef, e_sessionId = Undef, e_timestamp = Undef, e_proposedBy = Undef,
      e_proposedAt = None, e_changes = 1\<rparr> = SKIPPED_UNSUPPORTED"
    "resolveEventEnvelope id \<lparr>e_type = INSERT, e_sql = js ''INSERT OR IGNORE INTO nodes VALUES (1)'',
      e_params = [], e_entryId = Undef, e_sessionId = Undef, e_timestamp = Undef, e_proposedBy = Undef,
      e_proposedAt = None, e_changes = 0\<rparr> = BUILT CDC_INSERT"
    by code_simp+
  then show ?thesis by (simp add: buildEvent_def del: js_simps)
qed

end
