(* ===== verification/Spec2Isabelle.thy ===== *)
theory Spec2Isabelle
  imports Hlc KeyRangeValidation Json CdcPolicy Divergences
begin

text \<open>
  A verification of the parts of Lagrange that decide what a partition's replicas agree on. Lagrange is
  a distributed SQL database in JavaScript: tables are split into partitions by key range, a partition is
  a raft group whose replicas apply a log of committed commands to a SQLite database, distributed
  transactions run two-phase commit over partitions, and the writes of system tables are propagated as
  change-data-capture (CDC) events. Paths below are relative to \<open>src/src/\<close>.

  \<^bold>\<open>The parts and how they interact.\<close>
  \<^item> A write is routed by its key: the comparator (\<open>partition/split-key-comparator.js\<close>) orders keys, the
    range manager (\<open>partition/key-range-manager.js\<close>) owns the ranges and their splits and merges.
  \<^item> Commands carry timestamps of the hybrid logical clock (\<open>hlc/\<close>).
  \<^item> A command is admitted before consensus (\<open>partition/partition-committed-command-admission.js\<close>) and
    applied after it by \<open>applyCommittedEntry\<close> (\<open>partition/partition-service-entry-apply-base.js\<close>): SQL
    statements, the three participant transaction commands, acknowledgements of CDC events and
    settlements of the coordinator's transaction rows.
  \<^item> Each application runs in one SQLite transaction over the data, the recorded outcomes, the participant
    rows, the write generation and the ledger of owed CDC events; throwing rolls all of it back.

  \<^bold>\<open>Theories.\<close>
  \<^item> \<open>Prelude\<close>: JavaScript strings (UTF-16 code units), the error monad \<open>bindE\<close>, \<open>Map\<close> as \<open>jsmap\<close>, decimal
    digits; the collections \<open>err_simps\<close>, \<open>jm_simps\<close>, \<open>js_simps\<close>. \<open>JsNumber\<close>: IEEE doubles as exact
    rationals with rounding. \<open>JsSort\<close>: \<open>Array.prototype.sort\<close>. \<open>Json\<close>: \<open>JSON.stringify\<close> and
    \<open>JSON.parse\<close>, and that parsing inverts printing. \<open>Runs\<close>: the locale \<open>invariant_system\<close> for step
    relations with an invariant.
  \<^item> \<open>RoutingKey\<close>: the comparator, a total order on the keys of one type that computes the order of the
    type. \<open>KeyRange\<close>: ranges, splits and merges over the locale \<open>routing_order\<close>; every key keeps exactly
    one owner. \<open>KeyRangeValidation\<close>: \<open>addPartition\<close> and \<open>validateRanges\<close>.
  \<^item> \<open>Hlc\<close>: timestamps and the clock; happens-before is respected across nodes. The collation of node
    identifiers is the locale \<open>collation\<close>, interpreted on code-unit order.
  \<^item> \<open>ParticipantBytes\<close> (\<open>partition/partition-participant-transaction-bytes.js\<close>): identifiers, digests,
    decision records and pinned commands. \<open>ParticipantStore\<close> (\<open>...-transaction-store.js\<close>): the record
    \<open>pdb\<close> of a partition's database, participant rows, generation and origin, admission of CDC debt.
    \<open>ParticipantApply\<close> (\<open>...-transaction-apply.js\<close>): \<open>PREPARE\<close>, \<open>DECISION\<close> and \<open>GENERATION_ORIGIN\<close> on
    every branch, effects as values.
  \<^item> \<open>CdcPolicy\<close> (\<open>cache/cdc-table-policy.js\<close>): the whole policy table. \<open>CdcLedger\<close>
    (\<open>partition/partition-cdc-obligation-ledger.js\<close>): obligations, progress and the acknowledgement
    command. \<open>CdcGenerator\<close> (\<open>partition/partition-cdc-generator.js\<close>): which writes become events.
    \<open>CdcObligation\<close> (\<open>partition/partition-cdc-obligation.js\<close>): recording events with the write and
    applying acknowledgements; \<open>ledger_step\<close> is the life of an obligation.
  \<^item> \<open>StatementOutcome\<close> (\<open>partition/partition-committed-statement-outcome.js\<close>): recorded outcomes, failure
    classification, the durable commit witness.
  \<^item> \<open>Settlement\<close> (\<open>query/distributed/distributed-transaction-settlement.js\<close> with the participant manifest and
    the decision record): the settlement of the coordinator's rows; it never commits, is idempotent, and
    its result survives retention. \<open>SchemaEnforcement\<close>: the schema contract of that table.
  \<^item> \<open>EntryApply\<close>: admission, gate, dispatch and the SQL and settlement branches. \<open>EntrySteps\<close>: the
    specification \<open>db_step\<close> of one entry, with a rule per kind of change, and the refinement lemma
    \<open>applyCommittedEntry_step\<close>. \<open>EntryInvariant\<close>: the invariant \<open>db_ok\<close>, kept by every rule.
    \<open>EntryProperties\<close>: what follows for runs of the log: two-phase commit completes, terminal rows are
    final, operations take effect together, a prepared row isolates the partition, the validation text
    pins the data, a statement is executed once, the CDC debt is bounded, and which failures can occur.
  \<^item> \<open>Divergences\<close>: inputs on which the code does not do what its comments say, as closed theorems.

  \<^bold>\<open>Parameters.\<close> Code outside the repository is an argument of the definitions: SQLite's execution of a
  statement (\<open>en_run\<close>, a function of the data and the statement), reading and writing the coordinator table
  (\<open>en_transactions\<close>, \<open>en_putTransactions\<close>, \<open>en_schema\<close>, \<open>en_putSchema\<close>), SHA-256 (\<open>h\<close>, with the absence of
  collisions on a set of texts as a named hypothesis where a claim needs it), \<open>toUpperCase\<close> (\<open>uc\<close>), the
  decimal text of a non-integral number (\<open>ns\<close>) and the collation of \<open>localeCompare\<close>. Rendering a CDC event
  (\<open>en_render\<close>) is a parameter as well.

  \<^bold>\<open>Bounds.\<close> All definitions are total; the JSON reader has fuel of two units per character and two more,
  and \<open>Json\<close> shows that more fuel never changes its result. Log indices are below \<open>max_safe\<close>, the
  largest safe integer.

  \<^bold>\<open>Not modelled.\<close> Raft itself and its Rust binding, transport and discovery, the query planner and
  executor, the cache, bootstrap, the control plane, the rebalancer, the WASM runtime, administration,
  the command line and the scripts: they are large, mostly asynchronous orchestration whose contract with
  the modelled parts is the committed log. Within the modelled files: logging and metrics, the rendering
  of a CDC event (the row read back and the statement parsed), the census functions that report on a
  store, the proposal of a settlement, and the digests reported by schema enforcement.
\<close>

end
